theory Spec2Isabelle
  imports Complex_Main "HOL-Library.Multiset"
begin

section \<open>Values exchanged with the clinical-data service\<close>

text \<open>
  A JavaScript number. The screens never calculate with results or range bounds, they
  only parse and forward them, so the only structure needed is which of the special
  values a number is.
\<close>

datatype number = NaN | Finite rat | Infinity | NegInfinity

datatype error = TypeError

text \<open>
  One element of \<open>response.data.items\<close> as \<open>HomeScreen.js\<close> reads it. A field that is
  \<open>null\<close> or missing is \<open>None\<close>; a numeric field is held as the text that
  \<open>parseFloat\<close> sees after its \<open>ToString\<close> step.
\<close>

record item =
  Indicator :: string
  CollectedDate :: string
  Result :: string
  LowerRange :: "string option"
  UpperRange :: "string option"
  Units :: "string option"
  LaboratoryName :: "string option"

record point =
  date :: string
  result :: number
  laboratory :: "string option"

record series =
  indicator :: string
  lowerRange :: "number option"
  upperRange :: "number option"
  units :: string
  data :: "point list"

section \<open>HomeScreen.js: grouping\<close>

text \<open>
  \<open>groupDataByIndicator\<close> collects the items in a plain object \<open>grouped = {}\<close>, modelled
  as the list of its own properties in creation order. Reading \<open>grouped[indicator]\<close>
  also sees the properties every plain object inherits from \<open>Object.prototype\<close>; all
  of them are truthy and none has a \<open>push\<close> method.
\<close>

definition inheritedNames :: "string list" where
  "inheritedNames =
     [''constructor'', ''hasOwnProperty'', ''isPrototypeOf'', ''propertyIsEnumerable'',
      ''toLocaleString'', ''toString'', ''valueOf'', ''__proto__'',
      ''__defineGetter__'', ''__defineSetter__'', ''__lookupGetter__'', ''__lookupSetter__'']"

definition appendTo :: "string \<Rightarrow> item \<Rightarrow> (string \<times> item list) list \<Rightarrow> (string \<times> item list) list" where
  "appendTo k it grouped = map (\<lambda>(k', arr). if k' = k then (k', arr @ [it]) else (k', arr)) grouped"

text \<open>
  The body of the \<open>forEach\<close> callback:
  \<^verbatim>\<open>if (!grouped[indicator]) { grouped[indicator] = []; }  grouped[indicator].push(item);\<close>
\<close>

definition pushItem :: "item \<Rightarrow> (string \<times> item list) list \<Rightarrow> error + (string \<times> item list) list" where
  "pushItem it grouped =
     (let indicator = Indicator it in
      case map_of grouped indicator of
        Some arr \<Rightarrow> Inr (appendTo indicator it grouped)
      | None \<Rightarrow>
          if indicator \<in> set inheritedNames then Inl TypeError
          else Inr (grouped @ [(indicator, [it])]))"

fun forEachItem :: "item list \<Rightarrow> (string \<times> item list) list \<Rightarrow> error + (string \<times> item list) list" where
  "forEachItem [] grouped = Inr grouped"
| "forEachItem (it # rest) grouped =
     (case pushItem it grouped of
        Inl e \<Rightarrow> Inl e
      | Inr grouped' \<Rightarrow> forEachItem rest grouped')"

text \<open>
  \<open>Object.values\<close> lists the own properties whose key is an array index (a canonical
  decimal numeral below \<open>2^32 - 1\<close>) first, in ascending numeric order, and the others
  after them in creation order.
\<close>

definition isDigit :: "char \<Rightarrow> bool" where
  "isDigit c = (48 \<le> (of_char c :: int) \<and> (of_char c :: int) \<le> 57)"

definition digitsValue :: "string \<Rightarrow> int" where
  "digitsValue s = foldl (\<lambda>n c. 10 * n + ((of_char c :: int) - 48)) 0 s"

definition arrayIndex :: "string \<Rightarrow> int option" where
  "arrayIndex s =
     (if s \<noteq> [] \<and> list_all isDigit s \<and> (s = ''0'' \<or> hd s \<noteq> CHR ''0'')
         \<and> digitsValue s < 4294967295
      then Some (digitsValue s) else None)"

definition objectValues :: "(string \<times> 'a) list \<Rightarrow> 'a list" where
  "objectValues obj =
     map snd (sort_key (\<lambda>p. the (arrayIndex (fst p))) (filter (\<lambda>p. arrayIndex (fst p) \<noteq> None) obj))
     @ map snd (filter (\<lambda>p. arrayIndex (fst p) = None) obj)"

definition groupDataByIndicator :: "item list \<Rightarrow> error + item list list" where
  "groupDataByIndicator items =
     (case forEachItem items [] of
        Inl e \<Rightarrow> Inl e
      | Inr grouped \<Rightarrow> Inr (objectValues grouped))"

section \<open>HomeScreen.js: one chart per group\<close>

text \<open>
  \<open>group.sort((a, b) => new Date(a.CollectedDate) - new Date(b.CollectedDate))\<close>.
  The time value of \<open>new Date(s)\<close> is a parameter \<open>tv\<close> (\<open>None\<close> for an invalid date,
  whose time value is \<open>NaN\<close>). A difference involving \<open>NaN\<close> is \<open>NaN\<close>, which
  \<open>Array.prototype.sort\<close> reads as \<open>+0\<close>. Time values are integers of magnitude at most
  \<open>8.64e15\<close>, so the sign of the floating-point difference is the sign of the exact one.
\<close>

definition dateCompare :: "(string \<Rightarrow> int option) \<Rightarrow> item \<Rightarrow> item \<Rightarrow> int" where
  "dateCompare tv a b =
     (case (tv (CollectedDate a), tv (CollectedDate b)) of
        (Some ta, Some tb) \<Rightarrow> ta - tb
      | _ \<Rightarrow> 0)"

text \<open>
  For a consistent comparator \<open>Array.prototype.sort\<close> is fixed by ECMAScript: the result
  is sorted and stable. That order is computed here by insertion from the right.
\<close>

fun insertSorted :: "('a \<Rightarrow> 'a \<Rightarrow> int) \<Rightarrow> 'a \<Rightarrow> 'a list \<Rightarrow> 'a list" where
  "insertSorted cmp a [] = [a]"
| "insertSorted cmp a (b # bs) =
     (if cmp a b \<le> 0 then a # b # bs else b # insertSorted cmp a bs)"

fun arraySort :: "('a \<Rightarrow> 'a \<Rightarrow> int) \<Rightarrow> 'a list \<Rightarrow> 'a list" where
  "arraySort cmp [] = []"
| "arraySort cmp (a # as) = insertSorted cmp a (arraySort cmp as)"

text \<open>
  The comparator of the date sort is consistent on a group when every date parses, or
  when it yields \<open>+0\<close> for every pair (no two dates that parse differ). In every other
  case a date that does not parse compares as equal to two dates that differ, and
  ECMAScript leaves the order of the result to the engine: it still holds the same
  elements, each put where the engine's algorithm happens to put it. That choice is the
  parameter \<open>place\<close>, which gives the element at each index of the array a rank; the
  result lists the elements by rank.
\<close>

definition validDates :: "(string \<Rightarrow> int option) \<Rightarrow> item list \<Rightarrow> bool" where
  "validDates tv grp = list_all (\<lambda>r. tv (CollectedDate r) \<noteq> None) grp"

definition comparatorConsistent :: "(string \<Rightarrow> int option) \<Rightarrow> item list \<Rightarrow> bool" where
  "comparatorConsistent tv grp \<longleftrightarrow>
     validDates tv grp \<or> list_all (\<lambda>a. list_all (\<lambda>b. dateCompare tv a b = 0) grp) grp"

definition sortGroup :: "(item list \<Rightarrow> nat \<Rightarrow> nat) \<Rightarrow> (string \<Rightarrow> int option) \<Rightarrow> item list \<Rightarrow> item list" where
  "sortGroup place tv grp =
     (if comparatorConsistent tv grp then arraySort (dateCompare tv) grp
      else map (\<lambda>i. grp ! i) (sort_key (place grp) [0..<length grp]))"

text \<open>
  The \<open>for (let entry of group)\<close> loop, with \<open>parseFloat\<close> as the parameter \<open>pf\<close>:
  each bound is assigned while it is still \<open>null\<close> and the entry's field is not, and the
  loop breaks once both are set.
\<close>

fun scanRanges :: "(string \<Rightarrow> number) \<Rightarrow> item list \<Rightarrow> number option \<Rightarrow> number option
    \<Rightarrow> number option \<times> number option" where
  "scanRanges pf [] lo hi = (lo, hi)"
| "scanRanges pf (entry # rest) lo hi =
     (let lo' = (case (lo, LowerRange entry) of (None, Some v) \<Rightarrow> Some (pf v) | _ \<Rightarrow> lo);
          hi' = (case (hi, UpperRange entry) of (None, Some v) \<Rightarrow> Some (pf v) | _ \<Rightarrow> hi)
      in if lo' \<noteq> None \<and> hi' \<noteq> None then (lo', hi') else scanRanges pf rest lo' hi')"

definition toPoint :: "(string \<Rightarrow> number) \<Rightarrow> item \<Rightarrow> point" where
  "toPoint pf d = \<lparr>date = CollectedDate d, result = pf (Result d), laboratory = LaboratoryName d\<rparr>"

text \<open>
  The callback of \<open>grouped.map\<close>. Reading \<open>firstItem.Indicator\<close> of an empty group would
  raise; \<open>firstItem.Units || ''\<close> is the empty string when the field is missing or empty.
\<close>

definition processGroup ::
  "(item list \<Rightarrow> nat \<Rightarrow> nat) \<Rightarrow> (string \<Rightarrow> int option) \<Rightarrow> (string \<Rightarrow> number) \<Rightarrow> item list
     \<Rightarrow> error + series" where
  "processGroup place tv pf grp =
     (let sorted_group = sortGroup place tv grp;
          (lo, hi) = scanRanges pf sorted_group None None
      in case sorted_group of
           [] \<Rightarrow> Inl TypeError
         | firstItem # _ \<Rightarrow>
             Inr \<lparr>indicator = Indicator firstItem,
                  lowerRange = lo,
                  upperRange = hi,
                  units = (case Units firstItem of None \<Rightarrow> '''' | Some u \<Rightarrow> u),
                  data = map (toPoint pf) sorted_group\<rparr>)"

fun mapGroups :: "(item list \<Rightarrow> error + series) \<Rightarrow> item list list \<Rightarrow> error + series list" where
  "mapGroups f [] = Inr []"
| "mapGroups f (g # gs) =
     (case f g of
        Inl e \<Rightarrow> Inl e
      | Inr s \<Rightarrow> (case mapGroups f gs of Inl e \<Rightarrow> Inl e | Inr ss \<Rightarrow> Inr (s # ss)))"

text \<open>Steps 3 and 4 of \<open>fetchAllData\<close>: group, then build one chart per group.\<close>

definition buildTrends ::
  "(item list \<Rightarrow> nat \<Rightarrow> nat) \<Rightarrow> (string \<Rightarrow> int option) \<Rightarrow> (string \<Rightarrow> number) \<Rightarrow> item list
     \<Rightarrow> error + series list" where
  "buildTrends place tv pf items =
     (case groupDataByIndicator items of
        Inl e \<Rightarrow> Inl e
      | Inr grouped \<Rightarrow> mapGroups (processGroup place tv pf) grouped)"

section \<open>HomeScreen.js: the screen state\<close>

text \<open>
  The outcome of the \<open>axios.get\<close>: rejected (with the HTTP status when there was a
  response), or resolved with \<open>response.data.items\<close> (\<open>None\<close> when the field is missing).
  The guard \<open>!items || items.length === 0\<close> sets the error message, schedules the
  redirect and returns; \<open>finally\<close> clears \<open>loading\<close> on every path.
\<close>

datatype response = Rejected "nat option" | Resolved "item list option"

record homeState =
  loading :: bool
  error :: "string option"
  chartsData :: "series list"
  redirect :: "string option"

definition initialHome :: homeState where
  "initialHome = \<lparr>loading = True, error = None, chartsData = [], redirect = None\<rparr>"

definition noRecords :: "homeState \<Rightarrow> homeState" where
  "noRecords st =
     st\<lparr>error := Some ''No clinical data found for your account. Redirecting you to upload a new report...'',
        redirect := Some ''/upload'',
        loading := False\<rparr>"

definition fetchAllData ::
  "(item list \<Rightarrow> nat \<Rightarrow> nat) \<Rightarrow> (string \<Rightarrow> int option) \<Rightarrow> (string \<Rightarrow> number) \<Rightarrow> response \<Rightarrow> homeState
     \<Rightarrow> homeState" where
  "fetchAllData place tv pf resp st =
     (case resp of
        Rejected status \<Rightarrow>
          st\<lparr>error := Some (if status = Some 401 then ''Unauthorized. Please log in again.''
                             else ''Failed to load trending data.''),
             loading := False\<rparr>
      | Resolved None \<Rightarrow> noRecords st
      | Resolved (Some its) \<Rightarrow>
          if its = [] then noRecords st
          else
            (case buildTrends place tv pf its of
               Inl e \<Rightarrow> st\<lparr>error := Some ''Failed to load trending data.'', loading := False\<rparr>
             | Inr finalCharts \<Rightarrow> st\<lparr>chartsData := finalCharts, loading := False\<rparr>))"

text \<open>
  \<open>renderChart\<close>, reduced to the traces handed to the plot: the results trace, and the
  two range lines only when both bounds are not \<open>null\<close>.
\<close>

record trace =
  traceName :: string
  traceX :: "string list"
  traceY :: "number list"

datatype rendered = NoData | Plot "trace list"

definition renderChart :: "series \<Rightarrow> rendered" where
  "renderChart chartData =
     (if data chartData = [] then NoData
      else
        let dates = map date (data chartData);
            results = map result (data chartData);
            traceResults = \<lparr>traceName = ''Results'', traceX = dates, traceY = results\<rparr>
        in case (lowerRange chartData, upperRange chartData) of
             (Some lo, Some hi) \<Rightarrow>
               Plot [traceResults,
                     \<lparr>traceName = ''Lower Range'', traceX = dates, traceY = replicate (length dates) lo\<rparr>,
                     \<lparr>traceName = ''Upper Range'', traceX = dates, traceY = replicate (length dates) hi\<rparr>]
           | _ \<Rightarrow> Plot [traceResults])"

section \<open>ReviewForm.js\<close>

text \<open>
  \<open>formData\<close> is an object of text values, kept as the list of its properties in
  creation order. It starts from the fetched entry, \<open>data.Field || ''\<close> for each of the
  seven fields (\<open>None\<close> stands for a missing, \<open>null\<close> or otherwise falsy value).
\<close>

type_synonym formData = "(string \<times> string) list"

definition formFields :: "string list" where
  "formFields = [''PatientName'', ''CollectedDate'', ''Result'', ''Units'', ''LowerRange'',
                 ''UpperRange'', ''Indicator'']"

definition initialFormData :: "(string \<Rightarrow> string option) \<Rightarrow> formData" where
  "initialFormData dat = map (\<lambda>field. (field, case dat field of None \<Rightarrow> '''' | Some v \<Rightarrow> v)) formFields"

text \<open>
  \<open>setFormData({ ...formData, [name]: value })\<close>: an existing property keeps its place,
  a new one is added at the end. (The input of the indicator is named \<open>indicator\<close>, so
  typing there adds a property of that name.)
\<close>

definition handleChange :: "string \<Rightarrow> string \<Rightarrow> formData \<Rightarrow> formData" where
  "handleChange nm val fd =
     (if nm \<in> fst ` set fd then map (\<lambda>(k, v). if k = nm then (k, val) else (k, v)) fd
      else fd @ [(nm, val)])"

text \<open>The \<open>for (const field in formData)\<close> loop: the first field whose value \<open>=== ''\<close>.\<close>

fun firstEmptyField :: "formData \<Rightarrow> string option" where
  "firstEmptyField [] = None"
| "firstEmptyField ((field, v) # rest) = (if v = '''' then Some field else firstEmptyField rest)"

record reviewForm =
  formData :: formData
  formError :: string

text \<open>
  \<open>handleSubmit\<close> of the form. The second component is the argument \<open>onSubmit\<close> is called
  with, \<open>None\<close> when it is not called.
\<close>

definition ReviewForm_handleSubmit :: "reviewForm \<Rightarrow> reviewForm \<times> formData option" where
  "ReviewForm_handleSubmit st =
     (case firstEmptyField (formData st) of
        Some field \<Rightarrow> (st\<lparr>formError := ''Please fill out the '' @ field @ '' field.''\<rparr>, None)
      | None \<Rightarrow> (st\<lparr>formError := ''''\<rparr>, Some (formData st)))"

section \<open>ReviewScreen.js\<close>

text \<open>
  \<open>handleSubmit\<close> of the screen, the \<open>onSubmit\<close> of the form: without a data identifier
  nothing is sent; otherwise the form data is put to \<open>/clinical-data/<dataId>\<close>, and the
  screen shows success or failure according to the answer (the parameter \<open>accepted\<close>).
\<close>

record reviewScreen =
  dataId :: "string option"
  screenError :: string
  success :: string
  navigateTo :: "string option"

record putRequest =
  putUrl :: string
  putBody :: formData

definition ReviewScreen_handleSubmit ::
  "(putRequest \<Rightarrow> bool) \<Rightarrow> reviewScreen \<Rightarrow> formData \<Rightarrow> reviewScreen \<times> putRequest option" where
  "ReviewScreen_handleSubmit accepted st updatedData =
     (case dataId st of
        None \<Rightarrow> (st\<lparr>screenError := ''Invalid data identifier. Please try again.''\<rparr>, None)
      | Some ident \<Rightarrow>
          if ident = '''' then (st\<lparr>screenError := ''Invalid data identifier. Please try again.''\<rparr>, None)
          else
            let req = \<lparr>putUrl = ''http://localhost:5001/clinical-data/'' @ ident, putBody = updatedData\<rparr>
            in if accepted req
               then (st\<lparr>success := ''Data updated successfully! Redirecting to Home Page...'',
                        navigateTo := Some ''/home''\<rparr>, Some req)
               else (st\<lparr>screenError := ''Failed to submit review. Please try again.''\<rparr>, Some req))"

section \<open>UploadScreen.js\<close>

text \<open>
  The upload button is \<open>disabled={processing || !indicators.length || !file}\<close>; a click
  on the enabled button starts \<open>handleUpload\<close>, whose first request carries the file's
  name and type and the indicators.
\<close>

record selectedFile =
  fileName :: string
  fileType :: string

record uploadScreen =
  chosenFile :: "selectedFile option"
  indicators :: "string list"
  processing :: bool

record uploadUrlRequest =
  reqFilename :: string
  reqContentType :: string
  reqIndicators :: "string list"

definition uploadDisabled :: "uploadScreen \<Rightarrow> bool" where
  "uploadDisabled st \<longleftrightarrow> processing st \<or> indicators st = [] \<or> chosenFile st = None"

definition clickUpload :: "uploadScreen \<Rightarrow> uploadUrlRequest option" where
  "clickUpload st =
     (if uploadDisabled st then None
      else case chosenFile st of
             None \<Rightarrow> None
           | Some f \<Rightarrow> Some \<lparr>reqFilename = fileName f, reqContentType = fileType f,
                              reqIndicators = indicators st\<rparr>)"

section \<open>The record store and the ingestion gateway\<close>

text \<open>
  Modelled from the spec: the IndicatorRecord of the data model and its identity. The
  service that stores the records is not among the sources; only the screens that call
  it are.
\<close>

record indicatorRecord =
  userId :: string
  patientId :: string
  indicatorName :: string
  collectedDate :: string
  resultValue :: rat
  unitsText :: "string option"
  lowerBound :: "rat option"
  upperBound :: "rat option"
  laboratoryName :: "string option"
  sourceObjectKey :: string
  recordVersion :: nat

text \<open>
  Modelled from the spec: the identity of a record, (user id, patient id, collected date,
  indicator name), missing from the sources like the record itself.
\<close>

type_synonym identity = "string \<times> string \<times> string \<times> string"

definition identityOf :: "indicatorRecord \<Rightarrow> identity" where
  "identityOf r = (userId r, patientId r, collectedDate r, indicatorName r)"

text \<open>
  Modelled from the spec: the RecordStore, missing from the sources, with at most one
  live record per identity.
\<close>

type_synonym recordStore = "identity \<Rightarrow> indicatorRecord option"

text \<open>
  Modelled from the spec: \<open>RecordStore.upsert\<close>, missing from the sources. A record with
  a new identity is stored; one that shares its identity with a stored record replaces
  it only if its version is not older.
\<close>

definition upsert :: "recordStore \<Rightarrow> indicatorRecord \<Rightarrow> recordStore" where
  "upsert store r =
     (case store (identityOf r) of
        None \<Rightarrow> store(identityOf r \<mapsto> r)
      | Some existing \<Rightarrow>
          if recordVersion existing \<le> recordVersion r then store(identityOf r \<mapsto> r) else store)"

text \<open>
  Modelled from the spec: the versions of the extraction pipeline, missing from the
  sources. The spec speaks of the versions the pipeline could have produced for an
  identity; \<open>pmax\<close> is their upper bound, and a pipeline write is any record within it.
\<close>

definition pipelineWrite :: "(identity \<Rightarrow> nat) \<Rightarrow> indicatorRecord \<Rightarrow> bool" where
  "pipelineWrite pmax r \<longleftrightarrow> recordVersion r \<le> pmax (identityOf r)"

text \<open>
  Modelled from the spec: the minting of an edit's version, missing from the sources:
  strictly greater than any version the pipeline could have produced for the identity
  (and than the stored one, so that it is fresh).
\<close>

definition mintVersion :: "(identity \<Rightarrow> nat) \<Rightarrow> recordStore \<Rightarrow> identity \<Rightarrow> nat" where
  "mintVersion pmax store i =
     Suc (max (pmax i) (case store i of None \<Rightarrow> 0 | Some existing \<Rightarrow> recordVersion existing))"

text \<open>
  Modelled from the spec: the record edit, missing from the sources. It takes the
  identity and the fields and upserts them under a freshly minted version.
\<close>

definition recordEdit :: "(identity \<Rightarrow> nat) \<Rightarrow> recordStore \<Rightarrow> indicatorRecord \<Rightarrow> recordStore" where
  "recordEdit pmax store r =
     upsert store (r\<lparr>recordVersion := mintVersion pmax store (identityOf r)\<rparr>)"

text \<open>
  Modelled from the spec: the PendingUpload of the data model and the error taxonomy of
  the gateway, missing from the sources.
\<close>

datatype uploadState = ISSUED | CONFIRMED | EXPIRED

datatype gatewayError = InvalidRequest | QuotaExceeded | NotFound | Expired

record pendingUpload =
  objectKey :: string
  owner :: string
  patient :: string
  expectedIndicators :: "string list"
  createdAt :: nat
  uploadState :: uploadState

text \<open>
  Modelled from the spec: the write credential, missing from the sources. It is for one
  exact key and limited in time.
\<close>

record writeCredential =
  credentialKey :: string
  expiresAt :: nat

text \<open>
  Modelled from the spec: what the spec leaves open about the gateway, missing from the
  sources: which content types are accepted, how many outstanding uploads are too many,
  how keys are generated and how long a credential lasts.
\<close>

record gatewayConfig =
  acceptedType :: "string \<Rightarrow> bool"
  maxOutstanding :: nat
  freshKey :: "string \<Rightarrow> string \<Rightarrow> pendingUpload list \<Rightarrow> string"
  credentialLifetime :: nat

text \<open>
  Modelled from the spec: \<open>IngestionGateway.requestUpload\<close>, missing from the sources.
  It fails with \<open>InvalidRequest\<close> if the indicators are empty or the content type is not
  accepted, with \<open>QuotaExceeded\<close> if the user has too many outstanding ISSUED uploads;
  otherwise it creates a PendingUpload in state ISSUED and returns the key and a write
  credential for that key. The pending uploads are passed in and returned.
\<close>

definition requestUpload ::
  "gatewayConfig \<Rightarrow> nat \<Rightarrow> pendingUpload list \<Rightarrow> string \<Rightarrow> string \<Rightarrow> string \<Rightarrow> string \<Rightarrow> string list
     \<Rightarrow> pendingUpload list \<times> (gatewayError + string \<times> writeCredential)" where
  "requestUpload cfg now pendings user patientIdent filename contentType indicatorNames =
     (if indicatorNames = [] \<or> \<not> acceptedType cfg contentType then (pendings, Inl InvalidRequest)
      else if maxOutstanding cfg \<le> length (filter (\<lambda>p. owner p = user \<and> uploadState p = ISSUED) pendings)
        then (pendings, Inl QuotaExceeded)
      else
        let key = freshKey cfg user filename pendings in
        (\<lparr>objectKey = key, owner = user, patient = patientIdent, expectedIndicators = indicatorNames,
          createdAt = now, uploadState = ISSUED\<rparr> # pendings,
         Inr (key, \<lparr>credentialKey = key, expiresAt = now + credentialLifetime cfg\<rparr>)))"

section \<open>Vocabulary for stating the properties\<close>

text \<open>The first entry of a list of optional values that is present, if any.\<close>

fun firstNonNull :: "'a option list \<Rightarrow> 'a option" where
  "firstNonNull [] = None"
| "firstNonNull (None # rest) = firstNonNull rest"
| "firstNonNull (Some v # rest) = Some v"

text \<open>The indicator group of \<open>k\<close>: the fetched records of that indicator, in fetched order.\<close>

definition groupOf :: "item list \<Rightarrow> string \<Rightarrow> item list" where
  "groupOf its k = filter (\<lambda>r. Indicator r = k) its"

text \<open>The time value of a date that parses.\<close>

definition timeOf :: "(string \<Rightarrow> int option) \<Rightarrow> string \<Rightarrow> int" where
  "timeOf tv s = (case tv s of Some t \<Rightarrow> t | None \<Rightarrow> 0)"

text \<open>
  What \<open>grouped\<close> holds after the items \<open>seen\<close> have been pushed: one property per
  indicator met, holding the items of that indicator in the order they arrived.
\<close>

definition groupedInv :: "item list \<Rightarrow> (string \<times> item list) list \<Rightarrow> bool" where
  "groupedInv seen grouped \<longleftrightarrow>
     distinct (map fst grouped)
     \<and> fst ` set grouped = Indicator ` set seen
     \<and> (\<forall>(k, arr) \<in> set grouped. arr = filter (\<lambda>r. Indicator r = k) seen)
     \<and> mset (concat (map snd grouped)) = mset seen"

text \<open>
  \<open>Object.values\<close> keeps each group with its key: it lists the second components of a
  rearrangement of the properties.
\<close>

definition objectEntries :: "(string \<times> 'a) list \<Rightarrow> (string \<times> 'a) list" where
  "objectEntries obj =
     sort_key (\<lambda>p. the (arrayIndex (fst p))) (filter (\<lambda>p. arrayIndex (fst p) \<noteq> None) obj)
     @ filter (\<lambda>p. arrayIndex (fst p) = None) obj"

text \<open>The form data after a sequence of \<open>handleChange\<close> events on the initial form.\<close>

definition afterEdits :: "(string \<Rightarrow> string option) \<Rightarrow> (string \<times> string) list \<Rightarrow> formData" where
  "afterEdits dat events = foldl (\<lambda>fd (nm, val). handleChange nm val fd) (initialFormData dat) events"

section \<open>Sample data\<close>

text \<open>
  The values of the two builtins at the strings used in the worked examples:
  \<open>new Date(s).getTime()\<close> and \<open>parseFloat(s)\<close>. An engine that leaves an array as it
  is when the comparator is not consistent on it; V8 does so on the arrays of three used
  below, where both of its comparisons involve the date that does not parse and it
  takes the whole array for one ascending run.
\<close>

definition asGiven :: "item list \<Rightarrow> nat \<Rightarrow> nat" where
  "asGiven grp i = i"

definition exampleDate :: "string \<Rightarrow> int option" where
  "exampleDate s = map_of [(''2023-01-01'', 1672531200000), (''2023-03-15'', 1678838400000),
                           (''2023-06-01'', 1685577600000)] s"

definition exampleParseFloat :: "string \<Rightarrow> number" where
  "exampleParseFloat s =
     (case map_of [(''3.5'', Finite (7/2)), (''5.0'', Finite 5), (''4.1'', Finite (41/10)),
                   (''4.4'', Finite (22/5)), (''195'', Finite 195)] s of
        Some n \<Rightarrow> n
      | None \<Rightarrow> NaN)"

definition lowerOnly :: item where
  "lowerOnly = \<lparr>Indicator = ''Potassium'', CollectedDate = ''2023-01-01'', Result = ''4.1'',
                 LowerRange = Some ''3.5'', UpperRange = None, Units = None,
                 LaboratoryName = Some ''Central Lab''\<rparr>"

definition upperOnly :: item where
  "upperOnly = \<lparr>Indicator = ''Potassium'', CollectedDate = ''2023-06-01'', Result = ''4.4'',
                 LowerRange = None, UpperRange = Some ''5.0'', Units = Some ''mmol/L'',
                 LaboratoryName = None\<rparr>"

definition nonNumeric :: item where
  "nonNumeric = \<lparr>Indicator = ''Potassium'', CollectedDate = ''2023-03-15'', Result = ''pending'',
                  LowerRange = Some ''n/a'', UpperRange = None, Units = Some ''mEq/L'',
                  LaboratoryName = None\<rparr>"

definition sameDay :: item where
  "sameDay = \<lparr>Indicator = ''Potassium'', CollectedDate = ''2023-01-01'', Result = ''4.4'',
               LowerRange = None, UpperRange = None, Units = Some ''mmol/L'',
               LaboratoryName = Some ''Second Lab''\<rparr>"

definition undated :: item where
  "undated = \<lparr>Indicator = ''Potassium'', CollectedDate = ''not a date'', Result = ''4.4'',
               LowerRange = None, UpperRange = None, Units = Some ''mmol/L'',
               LaboratoryName = None\<rparr>"

definition exampleData :: "string \<Rightarrow> string option" where
  "exampleData = map_of [(''PatientName'', ''A. Patient''), (''CollectedDate'', ''2023-06-01''),
                         (''Result'', ''4.4''), (''UpperRange'', ''5.0''), (''LowerRange'', ''3.5''),
                         (''Indicator'', ''Potassium'')]"

definition exampleConfig :: gatewayConfig where
  "exampleConfig = \<lparr>acceptedType = (\<lambda>t. t \<in> set [''image/jpeg'', ''image/png'']), maxOutstanding = 3,
                     freshKey = (\<lambda>u f ps. u @ ''/'' @ f), credentialLifetime = 900\<rparr>"

definition exampleRecord :: indicatorRecord where
  "exampleRecord = \<lparr>userId = ''u1'', patientId = ''p1'', indicatorName = ''Potassium'',
                     collectedDate = ''2023-06-01'', resultValue = 22/5, unitsText = Some ''mmol/L'',
                     lowerBound = Some (7/2), upperBound = Some 5, laboratoryName = None,
                     sourceObjectKey = ''u1/report.jpg'', recordVersion = 4\<rparr>"

lemmas fixtures = lowerOnly_def upperOnly_def nonNumeric_def sameDay_def undated_def
  exampleDate_def exampleParseFloat_def

section \<open>Sorting and scanning\<close>

lemma scanRanges_eq:
  "scanRanges pf es lo hi =
     ((case lo of None \<Rightarrow> map_option pf (firstNonNull (map LowerRange es)) | Some l \<Rightarrow> Some l),
      (case hi of None \<Rightarrow> map_option pf (firstNonNull (map UpperRange es)) | Some h \<Rightarrow> Some h))"
  by (induction es arbitrary: lo hi) (auto simp: Let_def split: option.splits)

lemma insertSorted_insort:
  "\<forall>b \<in> set bs. (cmp a b \<le> 0) = (f a \<le> f b) \<Longrightarrow> insertSorted cmp a bs = insort_key f a bs"
  by (induction bs) auto

lemma set_insertSorted: "set (insertSorted cmp a bs) = insert a (set bs)"
  by (induction bs) auto

lemma set_arraySort: "set (arraySort cmp xs) = set xs"
  by (induction xs) (auto simp: set_insertSorted)

lemma mset_insertSorted: "mset (insertSorted cmp a bs) = add_mset a (mset bs)"
  by (induction bs) auto

lemma mset_arraySort: "mset (arraySort cmp xs) = mset xs"
  by (induction xs) (auto simp: mset_insertSorted)

lemma dateCompare_valid:
  "tv (CollectedDate a) \<noteq> None \<Longrightarrow> tv (CollectedDate b) \<noteq> None \<Longrightarrow>
   (dateCompare tv a b \<le> 0) = (timeOf tv (CollectedDate a) \<le> timeOf tv (CollectedDate b))"
  by (auto simp: dateCompare_def timeOf_def)

lemma arraySort_sort_key:
  "validDates tv xs \<Longrightarrow> arraySort (dateCompare tv) xs = sort_key (\<lambda>r. timeOf tv (CollectedDate r)) xs"
proof (induction xs)
  case Nil
  then show ?case by simp
next
  case (Cons a xs)
  then have v: "validDates tv xs" and va: "tv (CollectedDate a) \<noteq> None"
    by (simp_all add: validDates_def)
  have "\<forall>b \<in> set (arraySort (dateCompare tv) xs).
          (dateCompare tv a b \<le> 0) = (timeOf tv (CollectedDate a) \<le> timeOf tv (CollectedDate b))"
    using v va by (auto simp: set_arraySort validDates_def list_all_iff intro!: dateCompare_valid)
  then show ?case
    using Cons.IH [OF v] by (simp add: insertSorted_insort)
qed

lemma arraySort_all_equal:
  "\<forall>a \<in> set xs. \<forall>b \<in> set xs. cmp a b = 0 \<Longrightarrow> arraySort cmp xs = xs"
proof (induction xs)
  case Nil
  then show ?case by simp
next
  case (Cons a xs)
  then have ih: "arraySort cmp xs = xs" by simp
  show ?case
  proof (cases xs)
    case Nil
    then show ?thesis by simp
  next
    case (Cons b bs)
    then have "cmp a b = 0" using Cons.prems by simp
    then show ?thesis using ih Cons by simp
  qed
qed

lemma mset_sortGroup: "mset (sortGroup place tv grp) = mset grp"
proof (cases "comparatorConsistent tv grp")
  case True
  then show ?thesis by (simp add: sortGroup_def mset_arraySort)
next
  case False
  have "mset (map (\<lambda>i. grp ! i) (sort_key (place grp) [0..<length grp]))
          = image_mset (\<lambda>i. grp ! i) (mset (sort_key (place grp) [0..<length grp]))"
    by simp
  also have "\<dots> = image_mset (\<lambda>i. grp ! i) (mset [0..<length grp])"
    by (simp only: mset_sort)
  also have "\<dots> = mset (map (\<lambda>i. grp ! i) [0..<length grp])"
    by simp
  also have "\<dots> = mset grp"
    by (simp only: map_nth)
  finally show ?thesis using False by (simp add: sortGroup_def)
qed

lemma set_sortGroup: "set (sortGroup place tv grp) = set grp"
  using mset_sortGroup [of place tv grp] by (metis set_mset_mset)

lemma sortGroup_Nil_iff: "sortGroup place tv grp = [] \<longleftrightarrow> grp = []"
  using set_sortGroup [of place tv grp] by (metis set_empty)

lemma sortGroup_valid:
  "validDates tv grp \<Longrightarrow> sortGroup place tv grp = sort_key (\<lambda>r. timeOf tv (CollectedDate r)) grp"
  by (simp add: sortGroup_def comparatorConsistent_def arraySort_sort_key)

lemma sortGroup_all_equal:
  "list_all (\<lambda>a. list_all (\<lambda>b. dateCompare tv a b = 0) grp) grp \<Longrightarrow> sortGroup place tv grp = grp"
proof -
  assume z: "list_all (\<lambda>a. list_all (\<lambda>b. dateCompare tv a b = 0) grp) grp"
  then have "\<forall>a \<in> set grp. \<forall>b \<in> set grp. dateCompare tv a b = 0"
    by (simp add: list_all_iff)
  then have "arraySort (dateCompare tv) grp = grp"
    by (rule arraySort_all_equal)
  then show ?thesis using z by (simp add: sortGroup_def comparatorConsistent_def)
qed

lemma sortGroup_asGiven:
  "sortGroup asGiven tv grp = (if comparatorConsistent tv grp then arraySort (dateCompare tv) grp else grp)"
proof -
  have "asGiven grp = (\<lambda>i. i)" by (rule ext) (simp add: asGiven_def)
  moreover have "sort_key (\<lambda>i. i) [0..<length grp] = [0..<length grp]"
    by (rule sort_key_id_if_sorted) simp
  ultimately have "map (\<lambda>i. grp ! i) (sort_key (asGiven grp) [0..<length grp]) = grp"
    by (simp add: map_nth)
  then show ?thesis by (simp add: sortGroup_def)
qed

lemma processGroup_Inr:
  assumes "grp \<noteq> []"
  shows "\<exists>firstItem rest. sortGroup place tv grp = firstItem # rest \<and>
     processGroup place tv pf grp =
       Inr \<lparr>indicator = Indicator firstItem,
            lowerRange = map_option pf (firstNonNull (map LowerRange (firstItem # rest))),
            upperRange = map_option pf (firstNonNull (map UpperRange (firstItem # rest))),
            units = (case Units firstItem of None \<Rightarrow> [] | Some u \<Rightarrow> u),
            data = map (toPoint pf) (firstItem # rest)\<rparr>"
proof -
  obtain a as where srt: "sortGroup place tv grp = a # as"
    using assms sortGroup_Nil_iff [of place tv grp] by (cases "sortGroup place tv grp") auto
  show ?thesis
    unfolding processGroup_def srt by (simp add: scanRanges_eq del: scanRanges.simps)
qed

lemma sorted_sortGroup:
  "validDates tv grp \<Longrightarrow> sorted (map (\<lambda>r. timeOf tv (CollectedDate r)) (sortGroup place tv grp))"
  by (simp add: sortGroup_valid)

lemma stable_sortGroup:
  "validDates tv grp \<Longrightarrow>
   filter (\<lambda>r. timeOf tv (CollectedDate r) = t) (sortGroup place tv grp)
     = filter (\<lambda>r. timeOf tv (CollectedDate r) = t) grp"
  by (simp add: sortGroup_valid sort_key_stable)

lemma sortGroup_hd_min:
  assumes v: "validDates tv grp" and srt: "sortGroup place tv grp = firstItem # rest"
  shows "\<forall>r \<in> set grp. timeOf tv (CollectedDate firstItem) \<le> timeOf tv (CollectedDate r)"
proof -
  have "sorted (map (\<lambda>r. timeOf tv (CollectedDate r)) (firstItem # rest))"
    using sorted_sortGroup [OF v, of place] srt by simp
  moreover have "set (firstItem # rest) = set grp"
    using set_sortGroup [of place tv grp] srt by simp
  ultimately show ?thesis by auto
qed

lemma firstNonNull_None: "\<forall>v \<in> set vs. v = None \<Longrightarrow> firstNonNull vs = None"
  by (induction vs rule: firstNonNull.induct) auto

section \<open>Grouping\<close>

lemma map_fst_appendTo: "map fst (appendTo k it grouped) = map fst grouped"
  by (induction grouped) (auto simp: appendTo_def)

lemma mset_concat_appendTo:
  "distinct (map fst grouped) \<Longrightarrow> k \<in> fst ` set grouped \<Longrightarrow>
   mset (concat (map snd (appendTo k it grouped))) = add_mset it (mset (concat (map snd grouped)))"
proof (induction grouped)
  case Nil
  then show ?case by simp
next
  case (Cons p ps)
  obtain k' arr where p: "p = (k', arr)" by (cases p)
  show ?case
  proof (cases "k' = k")
    case True
    then have "k \<notin> fst ` set ps" using Cons.prems p by auto
    then have "appendTo k it ps = ps"
      by (induction ps) (auto simp: appendTo_def)
    then show ?thesis using True p by (simp add: appendTo_def)
  next
    case False
    then have "k \<in> fst ` set ps" using Cons.prems p by auto
    then have "mset (concat (map snd (appendTo k it ps))) = add_mset it (mset (concat (map snd ps)))"
      using Cons.IH Cons.prems by simp
    then show ?thesis using False p by (simp add: appendTo_def)
  qed
qed

lemma set_appendTo:
  "set (appendTo k it grouped) = (\<lambda>(k', arr). if k' = k then (k', arr @ [it]) else (k', arr)) ` set grouped"
  by (simp add: appendTo_def)

lemma pushItem_inv:
  assumes inv: "groupedInv seen grouped" and push: "pushItem it grouped = Inr grouped'"
  shows "groupedInv (seen @ [it]) grouped'"
proof (cases "map_of grouped (Indicator it)")
  case None
  then have new: "Indicator it \<notin> fst ` set grouped"
    by (simp add: map_of_eq_None_iff)
  with None push have g': "grouped' = grouped @ [(Indicator it, [it])]"
    by (auto simp: pushItem_def Let_def split: if_splits)
  have "Indicator it \<notin> Indicator ` set seen"
    using new inv by (simp add: groupedInv_def)
  then have "\<forall>r \<in> set seen. Indicator r \<noteq> Indicator it"
    by (metis image_eqI)
  then have "filter (\<lambda>r. Indicator r = Indicator it) seen = []"
    by (simp add: filter_empty_conv)
  moreover have "\<forall>(k, arr) \<in> set grouped. Indicator it \<noteq> k"
    using new by force
  ultimately show ?thesis
    using inv new unfolding g' groupedInv_def by (auto simp: image_Un)
next
  case (Some arr)
  then have old: "Indicator it \<in> fst ` set grouped"
    by (force dest: map_of_SomeD)
  from Some push have g': "grouped' = appendTo (Indicator it) it grouped"
    by (auto simp: pushItem_def Let_def)
  have d: "distinct (map fst grouped)" using inv by (simp add: groupedInv_def)
  have 1: "distinct (map fst grouped')" using d by (simp add: g' map_fst_appendTo)
  have 2: "fst ` set grouped' = Indicator ` set (seen @ [it])"
  proof -
    have "fst ` set grouped' = set (map fst grouped')" by simp
    also have "\<dots> = set (map fst grouped)" by (simp only: g' map_fst_appendTo)
    also have "\<dots> = fst ` set grouped" by simp
    finally show ?thesis using old inv by (auto simp: groupedInv_def)
  qed
  have 3: "\<forall>(k, arr) \<in> set grouped'. arr = filter (\<lambda>r. Indicator r = k) (seen @ [it])"
    using inv unfolding g' set_appendTo groupedInv_def by (fastforce split: if_splits)
  have 4: "mset (concat (map snd grouped')) = mset (seen @ [it])"
    using inv mset_concat_appendTo [OF d old, of it] by (simp add: g' groupedInv_def)
  show ?thesis unfolding groupedInv_def using 1 2 3 4 by blast
qed

lemma forEachItem_inv:
  "groupedInv seen grouped \<Longrightarrow> forEachItem its grouped = Inr grouped' \<Longrightarrow>
   groupedInv (seen @ its) grouped'"
proof (induction its arbitrary: seen grouped)
  case Nil
  then show ?case by simp
next
  case (Cons it its)
  from Cons.prems(2) obtain g1 where p: "pushItem it grouped = Inr g1"
    and r: "forEachItem its g1 = Inr grouped'"
    by (auto split: sum.splits)
  have "groupedInv (seen @ [it]) g1" using pushItem_inv [OF Cons.prems(1) p] .
  from Cons.IH [OF this r] show ?case by simp
qed

lemma groupedInv_Nil: "groupedInv [] []"
  by (simp add: groupedInv_def)

lemma pushItem_total:
  "Indicator it \<notin> set inheritedNames \<Longrightarrow> \<exists>g. pushItem it grouped = Inr g"
  by (auto simp: pushItem_def Let_def split: option.splits)

lemma forEachItem_total:
  "\<forall>r \<in> set its. Indicator r \<notin> set inheritedNames \<Longrightarrow> \<exists>g. forEachItem its grouped = Inr g"
proof (induction its arbitrary: grouped)
  case Nil
  then show ?case by simp
next
  case (Cons it its)
  then obtain g1 where "pushItem it grouped = Inr g1"
    using pushItem_total [of it grouped] by auto
  then show ?case using Cons by simp
qed

lemma pushItem_keys:
  "pushItem it grouped = Inr grouped' \<Longrightarrow> fst ` set grouped' = insert (Indicator it) (fst ` set grouped)"
proof -
  assume p: "pushItem it grouped = Inr grouped'"
  show ?thesis
  proof (cases "map_of grouped (Indicator it)")
    case None
    with p show ?thesis by (auto simp: pushItem_def Let_def split: if_splits)
  next
    case (Some arr)
    then have old: "Indicator it \<in> fst ` set grouped" by (force dest: map_of_SomeD)
    from Some p have "grouped' = appendTo (Indicator it) it grouped"
      by (auto simp: pushItem_def Let_def)
    then have "set (map fst grouped') = set (map fst grouped)"
      by (simp only: map_fst_appendTo)
    then show ?thesis using old by auto
  qed
qed

lemma forEachItem_fails:
  "fst ` set grouped \<inter> set inheritedNames = {} \<Longrightarrow>
   \<exists>r \<in> set its. Indicator r \<in> set inheritedNames \<Longrightarrow>
   forEachItem its grouped = Inl TypeError"
proof (induction its arbitrary: grouped)
  case Nil
  then show ?case by simp
next
  case (Cons it its)
  show ?case
  proof (cases "pushItem it grouped")
    case (Inl e)
    then show ?thesis by (cases e) simp
  next
    case (Inr g')
    have notinh: "Indicator it \<notin> set inheritedNames"
    proof
      assume inh: "Indicator it \<in> set inheritedNames"
      then have "Indicator it \<notin> fst ` set grouped" using Cons.prems(1) by blast
      then have "map_of grouped (Indicator it) = None" by (simp add: map_of_eq_None_iff)
      then have "pushItem it grouped = Inl TypeError" using inh by (simp add: pushItem_def Let_def)
      then show False using Inr by simp
    qed
    then have 1: "\<exists>r \<in> set its. Indicator r \<in> set inheritedNames" using Cons.prems(2) by auto
    have 2: "fst ` set g' \<inter> set inheritedNames = {}"
      using pushItem_keys [OF Inr] notinh Cons.prems(1) by auto
    show ?thesis using Cons.IH [OF 2 1] Inr by simp
  qed
qed

lemma mset_objectValues: "mset (objectValues obj) = mset (map snd obj)"
proof -
  have "mset (objectValues obj)
      = image_mset snd (filter_mset (\<lambda>p. arrayIndex (fst p) \<noteq> None) (mset obj))
        + image_mset snd (filter_mset (\<lambda>p. \<not> arrayIndex (fst p) \<noteq> None) (mset obj))"
    by (simp add: objectValues_def)
  also have "\<dots> = image_mset snd (mset obj)"
    by (simp flip: image_mset_union)
  finally show ?thesis by simp
qed

lemma set_objectValues: "set (objectValues obj) = snd ` set obj"
  using mset_objectValues [of obj] by (metis set_mset_mset set_map)

lemma mset_concat_perm: "mset xss = mset yss \<Longrightarrow> mset (concat xss) = mset (concat yss)"
  by (metis mset_concat sum_mset_sum_list mset_map)

lemma groupDataByIndicator_Inr:
  assumes "groupDataByIndicator its = Inr groups"
  shows "mset (concat groups) = mset its"
    and "\<forall>g \<in> set groups. g \<noteq> [] \<and> (\<exists>k. g = filter (\<lambda>r. Indicator r = k) its)"
    and "mset groups = mset (map (\<lambda>k. filter (\<lambda>r. Indicator r = k) its) (remdups (map Indicator its)))"
proof -
  from assms obtain obj where fe: "forEachItem its [] = Inr obj" and g: "groups = objectValues obj"
    by (auto simp: groupDataByIndicator_def split: sum.splits)
  have inv: "groupedInv its obj"
    using forEachItem_inv [OF groupedInv_Nil fe] by simp
  have "mset (concat groups) = mset (concat (map snd obj))"
    unfolding g by (rule mset_concat_perm) (rule mset_objectValues)
  then show "mset (concat groups) = mset its"
    using inv by (simp add: groupedInv_def)
  have ent: "\<forall>p \<in> set obj. snd p = filter (\<lambda>r. Indicator r = fst p) its"
    using inv by (auto simp: groupedInv_def)
  have keys: "fst ` set obj = Indicator ` set its"
    using inv by (simp add: groupedInv_def)
  show "\<forall>g \<in> set groups. g \<noteq> [] \<and> (\<exists>k. g = filter (\<lambda>r. Indicator r = k) its)"
  proof
    fix grp assume "grp \<in> set groups"
    then obtain p where p: "p \<in> set obj" and gp: "grp = snd p"
      unfolding g set_objectValues by auto
    have eq: "grp = filter (\<lambda>r. Indicator r = fst p) its" using ent p gp by simp
    have "fst p \<in> Indicator ` set its" using keys p by blast
    then obtain r where "r \<in> set its" "Indicator r = fst p" by auto
    then have "grp \<noteq> []" unfolding eq by (auto simp: filter_empty_conv)
    with eq show "grp \<noteq> [] \<and> (\<exists>k. grp = filter (\<lambda>r. Indicator r = k) its)" by blast
  qed
  have "map snd obj = map (\<lambda>k. filter (\<lambda>r. Indicator r = k) its) (map fst obj)"
    using ent by (simp add: map_eq_conv)
  moreover have "mset (map fst obj) = mset (remdups (map Indicator its))"
  proof -
    have "distinct (map fst obj)" using inv by (simp add: groupedInv_def)
    moreover have "set (map fst obj) = set (remdups (map Indicator its))"
      using keys by simp
    ultimately show ?thesis
      by (metis distinct_remdups set_eq_iff_mset_eq_distinct)
  qed
  ultimately show "mset groups = mset (map (\<lambda>k. filter (\<lambda>r. Indicator r = k) its) (remdups (map Indicator its)))"
    unfolding g mset_objectValues by (metis mset_map)
qed

lemma groupDataByIndicator_total:
  "\<forall>r \<in> set its. Indicator r \<notin> set inheritedNames \<Longrightarrow> \<exists>groups. groupDataByIndicator its = Inr groups"
  using forEachItem_total [of its "[]"] by (auto simp: groupDataByIndicator_def)

lemma mapGroups_Inr:
  "\<forall>g \<in> set gs. \<exists>s. f g = Inr s \<Longrightarrow>
   \<exists>ss. mapGroups f gs = Inr ss \<and> list_all2 (\<lambda>g s. f g = Inr s) gs ss"
proof (induction gs)
  case Nil
  then show ?case by simp
next
  case (Cons g gs)
  then obtain s ss where "f g = Inr s" "mapGroups f gs = Inr ss" "list_all2 (\<lambda>g s. f g = Inr s) gs ss"
    by auto
  then show ?case by simp
qed

lemma objectValues_entries: "objectValues obj = map snd (objectEntries obj)"
  by (simp add: objectValues_def objectEntries_def)

lemma mset_objectEntries: "mset (objectEntries obj) = mset obj"
proof -
  have "mset (objectEntries obj)
      = filter_mset (\<lambda>p. arrayIndex (fst p) \<noteq> None) (mset obj)
        + filter_mset (\<lambda>p. \<not> arrayIndex (fst p) \<noteq> None) (mset obj)"
    by (simp add: objectEntries_def)
  then show ?thesis by simp
qed

lemma set_objectEntries: "set (objectEntries obj) = set obj"
  using mset_objectEntries [of obj] by (metis set_mset_mset)

lemma distinct_objectEntries: "distinct (map fst obj) \<Longrightarrow> distinct (map fst (objectEntries obj))"
proof -
  assume "distinct (map fst obj)"
  moreover have "mset (map fst (objectEntries obj)) = mset (map fst obj)"
    by (simp add: mset_objectEntries)
  ultimately show ?thesis by (metis distinct_count_atmost_1 count_mset_0_iff set_mset_mset)
qed

lemma processGroup_indicator:
  assumes ne: "grp \<noteq> []" and k: "\<forall>r \<in> set grp. Indicator r = k"
    and pg: "processGroup place tv pf grp = Inr s"
  shows "indicator s = k"
proof -
  obtain f r where srt: "sortGroup place tv grp = f # r"
    and eq: "processGroup place tv pf grp =
       Inr \<lparr>indicator = Indicator f,
            lowerRange = map_option pf (firstNonNull (map LowerRange (f # r))),
            upperRange = map_option pf (firstNonNull (map UpperRange (f # r))),
            units = (case Units f of None \<Rightarrow> [] | Some u \<Rightarrow> u),
            data = map (toPoint pf) (f # r)\<rparr>"
    using processGroup_Inr [OF ne, of place tv pf] by blast
  have "f \<in> set grp" using set_sortGroup [of place tv grp] srt by auto
  then have "Indicator f = k" using k by blast
  then show ?thesis using eq pg by auto
qed

lemma mapGroups_entries:
  assumes "\<forall>p \<in> set ents. snd p \<noteq> [] \<and> (\<forall>r \<in> set (snd p). Indicator r = fst p)"
  shows "\<exists>ss. mapGroups (processGroup place tv pf) (map snd ents) = Inr ss
           \<and> map indicator ss = map fst ents
           \<and> (\<forall>s \<in> set ss. \<exists>p \<in> set ents. fst p = indicator s \<and> processGroup place tv pf (snd p) = Inr s)"
  using assms
proof (induction ents)
  case Nil
  then show ?case by simp
next
  case (Cons p ents)
  then obtain ss where ss: "mapGroups (processGroup place tv pf) (map snd ents) = Inr ss"
    and ind: "map indicator ss = map fst ents"
    and each: "\<forall>s \<in> set ss. \<exists>p \<in> set ents. fst p = indicator s \<and> processGroup place tv pf (snd p) = Inr s"
    by auto
  have ne: "snd p \<noteq> []" and k: "\<forall>r \<in> set (snd p). Indicator r = fst p"
    using Cons.prems by auto
  obtain s where pg: "processGroup place tv pf (snd p) = Inr s"
    using processGroup_Inr [OF ne, of place tv pf] by blast
  have ind_s: "indicator s = fst p"
    using processGroup_indicator [OF ne k pg] .
  have "mapGroups (processGroup place tv pf) (map snd (p # ents)) = Inr (s # ss)"
    using pg ss by simp
  moreover have "map indicator (s # ss) = map fst (p # ents)"
    using ind_s ind by simp
  moreover have "\<forall>s' \<in> set (s # ss). \<exists>q \<in> set (p # ents). fst q = indicator s'
        \<and> processGroup place tv pf (snd q) = Inr s'"
    using pg ind_s each by auto
  ultimately show ?case by blast
qed

lemma buildTrends_emits:
  assumes nc: "\<forall>r \<in> set its. Indicator r \<notin> set inheritedNames"
  shows "\<exists>ss. buildTrends place tv pf its = Inr ss
           \<and> distinct (map indicator ss)
           \<and> set (map indicator ss) = Indicator ` set its
           \<and> (\<forall>s \<in> set ss. groupOf its (indicator s) \<noteq> []
                  \<and> processGroup place tv pf (groupOf its (indicator s)) = Inr s)"
proof -
  obtain obj where fe: "forEachItem its [] = Inr obj"
    using forEachItem_total [OF nc, of "[]"] by blast
  have inv: "groupedInv its obj"
    using forEachItem_inv [OF groupedInv_Nil fe] by simp
  let ?ents = "objectEntries obj"
  have grp: "groupDataByIndicator its = Inr (map snd ?ents)"
    using fe by (simp add: groupDataByIndicator_def objectValues_entries)
  have d: "distinct (map fst obj)" and keys: "fst ` set obj = Indicator ` set its"
    and ent: "\<forall>p \<in> set obj. snd p = filter (\<lambda>r. Indicator r = fst p) its"
    using inv by (auto simp: groupedInv_def)
  have ent': "\<forall>p \<in> set ?ents. snd p = groupOf its (fst p)"
    using ent by (simp add: set_objectEntries groupOf_def)
  have ne: "\<forall>p \<in> set ?ents. snd p \<noteq> []"
  proof
    fix p assume p: "p \<in> set ?ents"
    then have "fst p \<in> Indicator ` set its" using keys by (auto simp: set_objectEntries)
    then obtain r where "r \<in> set its" "Indicator r = fst p" by auto
    then have "filter (\<lambda>r. Indicator r = fst p) its \<noteq> []" by (auto simp: filter_empty_conv)
    then show "snd p \<noteq> []" using ent' p by (simp add: groupOf_def)
  qed
  have "\<forall>p \<in> set ?ents. snd p \<noteq> [] \<and> (\<forall>r \<in> set (snd p). Indicator r = fst p)"
    using ne ent' by (auto simp: groupOf_def)
  then obtain ss where ss: "mapGroups (processGroup place tv pf) (map snd ?ents) = Inr ss"
    and ind: "map indicator ss = map fst ?ents"
    and each: "\<forall>s \<in> set ss. \<exists>p \<in> set ?ents. fst p = indicator s \<and> processGroup place tv pf (snd p) = Inr s"
    using mapGroups_entries [of ?ents place tv pf] by blast
  have 1: "buildTrends place tv pf its = Inr ss"
    using grp ss by (simp add: buildTrends_def)
  have 2: "distinct (map indicator ss)"
    using ind distinct_objectEntries [OF d] by simp
  have 3: "set (map indicator ss) = Indicator ` set its"
  proof -
    have "set (map indicator ss) = fst ` set ?ents" using ind by (metis set_map)
    then show ?thesis using keys by (simp add: set_objectEntries)
  qed
  have 4: "\<forall>s \<in> set ss. groupOf its (indicator s) \<noteq> []
                  \<and> processGroup place tv pf (groupOf its (indicator s)) = Inr s"
  proof
    fix s assume "s \<in> set ss"
    then obtain p where p: "p \<in> set ?ents" and f: "fst p = indicator s"
      and pg: "processGroup place tv pf (snd p) = Inr s"
      using each by blast
    have "snd p = groupOf its (indicator s)" using ent' p f by simp
    then show "groupOf its (indicator s) \<noteq> [] \<and> processGroup place tv pf (groupOf its (indicator s)) = Inr s"
      using ne p pg by auto
  qed
  show ?thesis using 1 2 3 4 by blast
qed

lemma mset_groups_data:
  "list_all2 (\<lambda>g s. g \<noteq> [] \<and> processGroup place tv pf g = Inr s) gs ss \<Longrightarrow>
   mset (concat (map data ss)) = image_mset (toPoint pf) (mset (concat gs))"
proof (induction rule: list_all2_induct)
  case Nil
  then show ?case by simp
next
  case (Cons g gs s ss)
  obtain f r where "sortGroup place tv g = f # r" "processGroup place tv pf g =
       Inr \<lparr>indicator = Indicator f,
            lowerRange = map_option pf (firstNonNull (map LowerRange (f # r))),
            upperRange = map_option pf (firstNonNull (map UpperRange (f # r))),
            units = (case Units f of None \<Rightarrow> [] | Some u \<Rightarrow> u),
            data = map (toPoint pf) (f # r)\<rparr>"
    using processGroup_Inr [of g place tv pf] Cons.hyps by blast
  then have "data s = map (toPoint pf) (sortGroup place tv g)"
    using Cons.hyps by simp
  then have "mset (data s) = image_mset (toPoint pf) (mset g)"
    by (simp add: mset_sortGroup)
  then show ?case using Cons.IH by simp
qed

lemma buildTrends_points:
  assumes "\<forall>r \<in> set its. Indicator r \<notin> set inheritedNames"
  shows "\<exists>ss. buildTrends place tv pf its = Inr ss
           \<and> mset (concat (map data ss)) = image_mset (toPoint pf) (mset its)"
proof -
  obtain groups where g: "groupDataByIndicator its = Inr groups"
    using groupDataByIndicator_total [OF assms] by blast
  have ne: "\<forall>g \<in> set groups. g \<noteq> []"
    using groupDataByIndicator_Inr(2) [OF g] by blast
  then have "\<forall>g \<in> set groups. \<exists>s. processGroup place tv pf g = Inr s"
    using processGroup_Inr by blast
  then obtain ss where ss: "mapGroups (processGroup place tv pf) groups = Inr ss"
    and all: "list_all2 (\<lambda>g s. processGroup place tv pf g = Inr s) groups ss"
    using mapGroups_Inr by blast
  have "list_all2 (\<lambda>g s. g \<noteq> [] \<and> processGroup place tv pf g = Inr s) groups ss"
    using all ne by (simp add: list_all2_conv_all_nth)
  then have "mset (concat (map data ss)) = image_mset (toPoint pf) (mset (concat groups))"
    by (rule mset_groups_data)
  then have "mset (concat (map data ss)) = image_mset (toPoint pf) (mset its)"
    using groupDataByIndicator_Inr(1) [OF g] by simp
  with ss show ?thesis using g by (simp add: buildTrends_def)
qed

section \<open>Properties of the trend aggregation\<close>

text \<open>
  What the emitted series are, when grouping does not raise: one series per indicator,
  each the result of the per-group step on the records of that indicator.
\<close>

lemma emitted_series:
  assumes nc: "\<forall>r \<in> set its. Indicator r \<notin> set inheritedNames"
  shows "\<exists>ss. buildTrends place tv pf its = Inr ss
           \<and> distinct (map indicator ss)
           \<and> set (map indicator ss) = Indicator ` set its
           \<and> (\<forall>s \<in> set ss. \<exists>firstItem rest.
                  sortGroup place tv (groupOf its (indicator s)) = firstItem # rest
                  \<and> s = \<lparr>indicator = Indicator firstItem,
                         lowerRange = map_option pf (firstNonNull (map LowerRange (firstItem # rest))),
                         upperRange = map_option pf (firstNonNull (map UpperRange (firstItem # rest))),
                         units = (case Units firstItem of None \<Rightarrow> [] | Some u \<Rightarrow> u),
                         data = map (toPoint pf) (firstItem # rest)\<rparr>)"
proof -
  obtain ss where bt: "buildTrends place tv pf its = Inr ss"
    and d: "distinct (map indicator ss)"
    and k: "set (map indicator ss) = Indicator ` set its"
    and each: "\<forall>s \<in> set ss. groupOf its (indicator s) \<noteq> []
                  \<and> processGroup place tv pf (groupOf its (indicator s)) = Inr s"
    using buildTrends_emits [OF nc, of place tv pf] by blast
  have "\<exists>firstItem rest.
          sortGroup place tv (groupOf its (indicator s)) = firstItem # rest
          \<and> s = \<lparr>indicator = Indicator firstItem,
                 lowerRange = map_option pf (firstNonNull (map LowerRange (firstItem # rest))),
                 upperRange = map_option pf (firstNonNull (map UpperRange (firstItem # rest))),
                 units = (case Units firstItem of None \<Rightarrow> [] | Some u \<Rightarrow> u),
                 data = map (toPoint pf) (firstItem # rest)\<rparr>" if s: "s \<in> set ss" for s
  proof -
    have ne: "groupOf its (indicator s) \<noteq> []"
      and pg: "processGroup place tv pf (groupOf its (indicator s)) = Inr s"
      using each s by auto
    show ?thesis
      using processGroup_Inr [OF ne, of place tv pf] pg by auto
  qed
  then show ?thesis using bt d k by blast
qed

text \<open>
  The model has room for the order an engine gives when the comparator is not
  consistent: for the dates 06-01, 03-15, an unparsable one and 01-01, V8 ends with
  01-01, 03-15, 06-01 and the unparsable one, which is the order of the ranks 2, 1, 3, 0.
\<close>

lemma sortGroup_engine_order:
  "sortGroup (\<lambda>grp i. [2, 1, 3, 0] ! i) exampleDate [upperOnly, nonNumeric, undated, lowerOnly]
     = [lowerOnly, nonNumeric, upperOnly, undated]"
  by (simp add: sortGroup_def comparatorConsistent_def validDates_def dateCompare_def fixtures
      upt_rec [of 0] upt_rec [of 1] upt_rec [of 2] upt_rec [of 3] upt_rec [of 4])

subsection \<open>Reference range\<close>

text \<open>
  With a date that does not parse the scan does not run in date order. Here the record
  of January supplies the lower bound 3.5, and the series gets 4.1 from the record of
  June, which the sort has left in front.
\<close>

theorem range_resolution_counterexample:
  "buildTrends asGiven exampleDate exampleParseFloat
       [upperOnly\<lparr>LowerRange := Some ''4.1''\<rparr>, undated, lowerOnly]
     = Inr [\<lparr>indicator = ''Potassium'', lowerRange = Some (Finite (41/10)), upperRange = Some (Finite 5),
              units = ''mmol/L'',
              data = [\<lparr>date = ''2023-06-01'', result = Finite (22/5), laboratory = None\<rparr>,
                      \<lparr>date = ''not a date'', result = Finite (22/5), laboratory = None\<rparr>,
                      \<lparr>date = ''2023-01-01'', result = Finite (41/10), laboratory = Some ''Central Lab''\<rparr>]\<rparr>]
   \<and> LowerRange lowerOnly = Some ''3.5''
   \<and> exampleDate (CollectedDate lowerOnly) = Some 1672531200000
   \<and> exampleDate (CollectedDate upperOnly) = Some 1685577600000
   \<and> exampleDate (CollectedDate undated) = None"
  by (simp add: buildTrends_def groupDataByIndicator_def pushItem_def inheritedNames_def Let_def
      appendTo_def objectValues_def arrayIndex_def isDigit_def processGroup_def sortGroup_asGiven
      comparatorConsistent_def validDates_def dateCompare_def toPoint_def fixtures)

text \<open>
  C1, as the code has it. Whenever grouping does not raise (no indicator is a name that
  plain objects inherit), buildTrends emits one series per indicator, and the range of a
  series is resolved by scanning the records of its indicator in the order the date sort
  leaves them, taking on its own the first non-null lower bound and the first non-null
  upper bound. That order holds the records of the group, and it is the ascending order
  of collected dates, equal dates in fetched order, for every group whose dates all
  parse. The two bounds may come from different records: for a record dated 2023-01-01
  carrying only the lower bound 3.5 and one dated 2023-06-01 carrying only the upper
  bound 5.0, fetched in either order, the one series gets both.
\<close>

theorem range_resolution:
  "((\<forall>r \<in> set its. Indicator r \<notin> set inheritedNames) \<longrightarrow>
      (\<exists>ss. buildTrends place tv pf its = Inr ss
         \<and> distinct (map indicator ss)
         \<and> set (map indicator ss) = Indicator ` set its
         \<and> (\<forall>s \<in> set ss.
               lowerRange s = map_option pf (firstNonNull (map LowerRange
                                (sortGroup place tv (groupOf its (indicator s)))))
             \<and> upperRange s = map_option pf (firstNonNull (map UpperRange
                                (sortGroup place tv (groupOf its (indicator s)))))
             \<and> mset (sortGroup place tv (groupOf its (indicator s))) = mset (groupOf its (indicator s))
             \<and> (validDates tv (groupOf its (indicator s)) \<longrightarrow>
                   sorted (map (\<lambda>r. timeOf tv (CollectedDate r))
                     (sortGroup place tv (groupOf its (indicator s))))
                 \<and> (\<forall>t. filter (\<lambda>r. timeOf tv (CollectedDate r) = t)
                            (sortGroup place tv (groupOf its (indicator s)))
                          = filter (\<lambda>r. timeOf tv (CollectedDate r) = t) (groupOf its (indicator s)))))))
   \<and> (tv ''2023-01-01'' = Some t1 \<and> tv ''2023-06-01'' = Some t2 \<and> t1 < t2
        \<and> Indicator a = k \<and> Indicator b = k \<and> k \<notin> set inheritedNames
        \<and> CollectedDate a = ''2023-01-01'' \<and> LowerRange a = Some ''3.5'' \<and> UpperRange a = None
        \<and> CollectedDate b = ''2023-06-01'' \<and> LowerRange b = None \<and> UpperRange b = Some ''5.0''
      \<longrightarrow> (\<exists>s. buildTrends place tv pf [a, b] = Inr [s]
                 \<and> lowerRange s = Some (pf ''3.5'') \<and> upperRange s = Some (pf ''5.0''))
        \<and> (\<exists>s. buildTrends place tv pf [b, a] = Inr [s]
                 \<and> lowerRange s = Some (pf ''3.5'') \<and> upperRange s = Some (pf ''5.0'')))"
proof (intro conjI impI)
  assume nc: "\<forall>r \<in> set its. Indicator r \<notin> set inheritedNames"
  obtain ss where bt: "buildTrends place tv pf its = Inr ss"
    and d: "distinct (map indicator ss)"
    and k: "set (map indicator ss) = Indicator ` set its"
    and each: "\<forall>s \<in> set ss. \<exists>firstItem rest.
                  sortGroup place tv (groupOf its (indicator s)) = firstItem # rest
                  \<and> s = \<lparr>indicator = Indicator firstItem,
                         lowerRange = map_option pf (firstNonNull (map LowerRange (firstItem # rest))),
                         upperRange = map_option pf (firstNonNull (map UpperRange (firstItem # rest))),
                         units = (case Units firstItem of None \<Rightarrow> [] | Some u \<Rightarrow> u),
                         data = map (toPoint pf) (firstItem # rest)\<rparr>"
    using emitted_series [OF nc, of place tv pf] by blast
  have "lowerRange s = map_option pf (firstNonNull (map LowerRange
                          (sortGroup place tv (groupOf its (indicator s)))))
      \<and> upperRange s = map_option pf (firstNonNull (map UpperRange
                          (sortGroup place tv (groupOf its (indicator s)))))
      \<and> mset (sortGroup place tv (groupOf its (indicator s))) = mset (groupOf its (indicator s))
      \<and> (validDates tv (groupOf its (indicator s)) \<longrightarrow>
            sorted (map (\<lambda>r. timeOf tv (CollectedDate r))
              (sortGroup place tv (groupOf its (indicator s))))
          \<and> (\<forall>t. filter (\<lambda>r. timeOf tv (CollectedDate r) = t)
                     (sortGroup place tv (groupOf its (indicator s)))
                   = filter (\<lambda>r. timeOf tv (CollectedDate r) = t) (groupOf its (indicator s))))"
    if s: "s \<in> set ss" for s
  proof -
    obtain f r where srt: "sortGroup place tv (groupOf its (indicator s)) = f # r"
      and eq: "s = \<lparr>indicator = Indicator f,
                    lowerRange = map_option pf (firstNonNull (map LowerRange (f # r))),
                    upperRange = map_option pf (firstNonNull (map UpperRange (f # r))),
                    units = (case Units f of None \<Rightarrow> [] | Some u \<Rightarrow> u),
                    data = map (toPoint pf) (f # r)\<rparr>"
      using each s by blast
    have 1: "lowerRange s = map_option pf (firstNonNull (map LowerRange (f # r)))"
      and 2: "upperRange s = map_option pf (firstNonNull (map UpperRange (f # r)))"
      by (subst eq, simp)+
    show ?thesis
      using 1 2 mset_sortGroup [of place tv "groupOf its (indicator s)"]
        sorted_sortGroup [of tv "groupOf its (indicator s)" place]
        stable_sortGroup [of tv "groupOf its (indicator s)" _ place]
      unfolding srt [symmetric] by blast
  qed
  then show "\<exists>ss. buildTrends place tv pf its = Inr ss
         \<and> distinct (map indicator ss)
         \<and> set (map indicator ss) = Indicator ` set its
         \<and> (\<forall>s \<in> set ss.
               lowerRange s = map_option pf (firstNonNull (map LowerRange
                                (sortGroup place tv (groupOf its (indicator s)))))
             \<and> upperRange s = map_option pf (firstNonNull (map UpperRange
                                (sortGroup place tv (groupOf its (indicator s)))))
             \<and> mset (sortGroup place tv (groupOf its (indicator s))) = mset (groupOf its (indicator s))
             \<and> (validDates tv (groupOf its (indicator s)) \<longrightarrow>
                   sorted (map (\<lambda>r. timeOf tv (CollectedDate r))
                     (sortGroup place tv (groupOf its (indicator s))))
                 \<and> (\<forall>t. filter (\<lambda>r. timeOf tv (CollectedDate r) = t)
                            (sortGroup place tv (groupOf its (indicator s)))
                          = filter (\<lambda>r. timeOf tv (CollectedDate r) = t) (groupOf its (indicator s)))))"
    using bt d k by blast
next
  assume h: "tv ''2023-01-01'' = Some t1 \<and> tv ''2023-06-01'' = Some t2 \<and> t1 < t2
        \<and> Indicator a = k \<and> Indicator b = k \<and> k \<notin> set inheritedNames
        \<and> CollectedDate a = ''2023-01-01'' \<and> LowerRange a = Some ''3.5'' \<and> UpperRange a = None
        \<and> CollectedDate b = ''2023-06-01'' \<and> LowerRange b = None \<and> UpperRange b = Some ''5.0''"
  then have c: "comparatorConsistent tv [a, b]" "comparatorConsistent tv [b, a]"
    by (simp_all add: comparatorConsistent_def validDates_def)
  have ab: "groupDataByIndicator [a, b] = Inr [[a, b]]" and ba: "groupDataByIndicator [b, a] = Inr [[b, a]]"
    using h by (simp_all add: groupDataByIndicator_def pushItem_def Let_def appendTo_def objectValues_def)
  show "\<exists>s. buildTrends place tv pf [a, b] = Inr [s]
                 \<and> lowerRange s = Some (pf ''3.5'') \<and> upperRange s = Some (pf ''5.0'')"
    using h c by (simp add: buildTrends_def ab processGroup_def sortGroup_def dateCompare_def)
  show "\<exists>s. buildTrends place tv pf [b, a] = Inr [s]
                 \<and> lowerRange s = Some (pf ''3.5'') \<and> upperRange s = Some (pf ''5.0'')"
    using h c by (simp add: buildTrends_def ba processGroup_def sortGroup_def dateCompare_def)
qed

theorem range_resolution_witness:
  "list_all (\<lambda>r. Indicator r \<notin> set inheritedNames) [upperOnly, lowerOnly]
   \<and> validDates exampleDate (groupOf [upperOnly, lowerOnly] ''Potassium'')
   \<and> exampleDate ''2023-01-01'' = Some 1672531200000 \<and> exampleDate ''2023-06-01'' = Some 1685577600000
   \<and> (1672531200000 :: int) < 1685577600000
   \<and> buildTrends asGiven exampleDate exampleParseFloat [upperOnly, lowerOnly]
       = Inr [\<lparr>indicator = ''Potassium'', lowerRange = Some (Finite (7/2)), upperRange = Some (Finite 5),
                units = '''',
                data = [\<lparr>date = ''2023-01-01'', result = Finite (41/10), laboratory = Some ''Central Lab''\<rparr>,
                        \<lparr>date = ''2023-06-01'', result = Finite (22/5), laboratory = None\<rparr>]\<rparr>]"
  using range_resolution [where its = "[upperOnly, lowerOnly]" and place = asGiven and tv = exampleDate
      and pf = exampleParseFloat and ?t1.0 = 1672531200000 and ?t2.0 = 1685577600000
      and a = lowerOnly and b = upperOnly and k = "''Potassium''"]
  by (simp add: buildTrends_def groupDataByIndicator_def pushItem_def inheritedNames_def Let_def
      appendTo_def objectValues_def arrayIndex_def isDigit_def processGroup_def sortGroup_asGiven
      comparatorConsistent_def validDates_def dateCompare_def toPoint_def groupOf_def fixtures)

subsection \<open>Order of the points\<close>

text \<open>
  With a date that does not parse the points are not in date order: here the point of
  June comes before the point of January.
\<close>

theorem points_sorted_stable_counterexample:
  "map_sum id (map (map date \<circ> data))
       (buildTrends asGiven exampleDate exampleParseFloat [upperOnly, undated, lowerOnly])
     = Inr [[''2023-06-01'', ''not a date'', ''2023-01-01'']]
   \<and> exampleDate ''2023-06-01'' = Some 1685577600000
   \<and> exampleDate ''2023-01-01'' = Some 1672531200000
   \<and> exampleDate ''not a date'' = None"
  by (simp add: buildTrends_def groupDataByIndicator_def pushItem_def inheritedNames_def Let_def
      appendTo_def objectValues_def arrayIndex_def isDigit_def processGroup_def sortGroup_asGiven
      comparatorConsistent_def validDates_def dateCompare_def toPoint_def fixtures)

text \<open>
  C3, as the code has it. Whenever grouping does not raise, buildTrends emits one series
  per indicator, and its points are the points of the records of that indicator. For
  every indicator group whose collected dates all parse, the points are in ascending
  order of collected date, and the points of any one date appear in the order their
  records were fetched.
\<close>

theorem points_sorted_stable:
  "(\<forall>r \<in> set its. Indicator r \<notin> set inheritedNames) \<Longrightarrow>
   \<exists>ss. buildTrends place tv pf its = Inr ss
     \<and> distinct (map indicator ss)
     \<and> set (map indicator ss) = Indicator ` set its
     \<and> (\<forall>s \<in> set ss.
           mset (data s) = image_mset (toPoint pf) (mset (groupOf its (indicator s)))
         \<and> (validDates tv (groupOf its (indicator s)) \<longrightarrow>
               sorted (map (\<lambda>p. timeOf tv (date p)) (data s))
             \<and> (\<forall>t. filter (\<lambda>p. timeOf tv (date p) = t) (data s)
                      = map (toPoint pf)
                          (filter (\<lambda>r. timeOf tv (CollectedDate r) = t) (groupOf its (indicator s))))))"
proof -
  assume nc: "\<forall>r \<in> set its. Indicator r \<notin> set inheritedNames"
  obtain ss where bt: "buildTrends place tv pf its = Inr ss"
    and d: "distinct (map indicator ss)"
    and k: "set (map indicator ss) = Indicator ` set its"
    and each: "\<forall>s \<in> set ss. \<exists>firstItem rest.
                  sortGroup place tv (groupOf its (indicator s)) = firstItem # rest
                  \<and> s = \<lparr>indicator = Indicator firstItem,
                         lowerRange = map_option pf (firstNonNull (map LowerRange (firstItem # rest))),
                         upperRange = map_option pf (firstNonNull (map UpperRange (firstItem # rest))),
                         units = (case Units firstItem of None \<Rightarrow> [] | Some u \<Rightarrow> u),
                         data = map (toPoint pf) (firstItem # rest)\<rparr>"
    using emitted_series [OF nc, of place tv pf] by blast
  have "mset (data s) = image_mset (toPoint pf) (mset (groupOf its (indicator s)))
      \<and> (validDates tv (groupOf its (indicator s)) \<longrightarrow>
            sorted (map (\<lambda>p. timeOf tv (date p)) (data s))
          \<and> (\<forall>t. filter (\<lambda>p. timeOf tv (date p) = t) (data s)
                   = map (toPoint pf)
                       (filter (\<lambda>r. timeOf tv (CollectedDate r) = t) (groupOf its (indicator s)))))"
    if s: "s \<in> set ss" for s
  proof -
    let ?grp = "groupOf its (indicator s)"
    obtain f r where srt: "sortGroup place tv ?grp = f # r"
      and eq: "s = \<lparr>indicator = Indicator f,
                    lowerRange = map_option pf (firstNonNull (map LowerRange (f # r))),
                    upperRange = map_option pf (firstNonNull (map UpperRange (f # r))),
                    units = (case Units f of None \<Rightarrow> [] | Some u \<Rightarrow> u),
                    data = map (toPoint pf) (f # r)\<rparr>"
      using each s by blast
    have dat: "data s = map (toPoint pf) (sortGroup place tv ?grp)"
      unfolding srt by (subst eq) simp
    have dt: "(\<lambda>p. timeOf tv (date p)) \<circ> toPoint pf = (\<lambda>r. timeOf tv (CollectedDate r))"
      by (auto simp: toPoint_def)
    have 1: "mset (data s) = image_mset (toPoint pf) (mset ?grp)"
      by (simp add: dat mset_sortGroup)
    have 2: "sorted (map (\<lambda>p. timeOf tv (date p)) (data s))" if v: "validDates tv ?grp"
      using sorted_sortGroup [OF v, of place] by (simp add: dat dt)
    have 3: "filter (\<lambda>p. timeOf tv (date p) = t) (data s)
               = map (toPoint pf) (filter (\<lambda>r. timeOf tv (CollectedDate r) = t) ?grp)"
      if v: "validDates tv ?grp" for t
    proof -
      have "(\<lambda>p. timeOf tv (date p) = t) \<circ> toPoint pf = (\<lambda>r. timeOf tv (CollectedDate r) = t)"
        by (auto simp: toPoint_def)
      then show ?thesis
        using stable_sortGroup [OF v, of t place] by (simp add: dat filter_map)
    qed
    show ?thesis using 1 2 3 by blast
  qed
  then show ?thesis using bt d k by blast
qed

theorem points_sorted_stable_witness:
  "list_all (\<lambda>r. Indicator r \<notin> set inheritedNames) [upperOnly, lowerOnly, sameDay]
   \<and> validDates exampleDate (groupOf [upperOnly, lowerOnly, sameDay] ''Potassium'')
   \<and> map_sum id (map (map laboratory \<circ> data))
        (buildTrends asGiven exampleDate exampleParseFloat [upperOnly, lowerOnly, sameDay])
       = Inr [[Some ''Central Lab'', Some ''Second Lab'', None]]
   \<and> map_sum id (map (map date \<circ> data))
        (buildTrends asGiven exampleDate exampleParseFloat [upperOnly, lowerOnly, sameDay])
       = Inr [[''2023-01-01'', ''2023-01-01'', ''2023-06-01'']]"
  using points_sorted_stable [where its = "[upperOnly, lowerOnly, sameDay]" and place = asGiven
      and tv = exampleDate and pf = exampleParseFloat]
  by (simp add: buildTrends_def groupDataByIndicator_def pushItem_def inheritedNames_def Let_def
      appendTo_def objectValues_def arrayIndex_def isDigit_def processGroup_def sortGroup_asGiven
      comparatorConsistent_def validDates_def dateCompare_def toPoint_def groupOf_def fixtures)

subsection \<open>Units\<close>

text \<open>
  The units are read from the first record after the sort only. Here the earliest
  record has no units and the later one has \<open>mmol/L\<close>; the series gets the empty
  string.
\<close>

theorem units_first_specified_counterexample:
  "buildTrends asGiven exampleDate exampleParseFloat [lowerOnly, upperOnly]
     = Inr [\<lparr>indicator = ''Potassium'', lowerRange = Some (Finite (7/2)), upperRange = Some (Finite 5),
              units = '''',
              data = [\<lparr>date = ''2023-01-01'', result = Finite (41/10), laboratory = Some ''Central Lab''\<rparr>,
                      \<lparr>date = ''2023-06-01'', result = Finite (22/5), laboratory = None\<rparr>]\<rparr>]
   \<and> Units lowerOnly = None \<and> Units upperOnly = Some ''mmol/L''"
  by (simp add: buildTrends_def groupDataByIndicator_def pushItem_def inheritedNames_def Let_def
      appendTo_def objectValues_def arrayIndex_def isDigit_def processGroup_def sortGroup_asGiven
      comparatorConsistent_def validDates_def dateCompare_def toPoint_def fixtures)

text \<open>
  C4, as the code has it. Whenever grouping does not raise, buildTrends emits one series
  per indicator, and its units are those of the record of that indicator that the date
  sort puts first, the empty string when that record has none; later records are not
  consulted. For every indicator group whose collected dates all parse, that record is
  one with the least collected date.
\<close>

theorem units_of_earliest:
  "(\<forall>r \<in> set its. Indicator r \<notin> set inheritedNames) \<Longrightarrow>
   \<exists>ss. buildTrends place tv pf its = Inr ss
     \<and> distinct (map indicator ss)
     \<and> set (map indicator ss) = Indicator ` set its
     \<and> (\<forall>s \<in> set ss. \<exists>firstItem rest.
           sortGroup place tv (groupOf its (indicator s)) = firstItem # rest
         \<and> firstItem \<in> set (groupOf its (indicator s))
         \<and> units s = (case Units firstItem of None \<Rightarrow> '''' | Some u \<Rightarrow> u)
         \<and> (validDates tv (groupOf its (indicator s)) \<longrightarrow>
               (\<forall>r \<in> set (groupOf its (indicator s)).
                  timeOf tv (CollectedDate firstItem) \<le> timeOf tv (CollectedDate r))))"
proof -
  assume nc: "\<forall>r \<in> set its. Indicator r \<notin> set inheritedNames"
  obtain ss where bt: "buildTrends place tv pf its = Inr ss"
    and d: "distinct (map indicator ss)"
    and k: "set (map indicator ss) = Indicator ` set its"
    and each: "\<forall>s \<in> set ss. \<exists>firstItem rest.
                  sortGroup place tv (groupOf its (indicator s)) = firstItem # rest
                  \<and> s = \<lparr>indicator = Indicator firstItem,
                         lowerRange = map_option pf (firstNonNull (map LowerRange (firstItem # rest))),
                         upperRange = map_option pf (firstNonNull (map UpperRange (firstItem # rest))),
                         units = (case Units firstItem of None \<Rightarrow> [] | Some u \<Rightarrow> u),
                         data = map (toPoint pf) (firstItem # rest)\<rparr>"
    using emitted_series [OF nc, of place tv pf] by blast
  have "\<exists>firstItem rest.
           sortGroup place tv (groupOf its (indicator s)) = firstItem # rest
         \<and> firstItem \<in> set (groupOf its (indicator s))
         \<and> units s = (case Units firstItem of None \<Rightarrow> '''' | Some u \<Rightarrow> u)
         \<and> (validDates tv (groupOf its (indicator s)) \<longrightarrow>
               (\<forall>r \<in> set (groupOf its (indicator s)).
                  timeOf tv (CollectedDate firstItem) \<le> timeOf tv (CollectedDate r)))"
    if s: "s \<in> set ss" for s
  proof -
    let ?grp = "groupOf its (indicator s)"
    obtain f r where srt: "sortGroup place tv ?grp = f # r"
      and eq: "s = \<lparr>indicator = Indicator f,
                    lowerRange = map_option pf (firstNonNull (map LowerRange (f # r))),
                    upperRange = map_option pf (firstNonNull (map UpperRange (f # r))),
                    units = (case Units f of None \<Rightarrow> [] | Some u \<Rightarrow> u),
                    data = map (toPoint pf) (f # r)\<rparr>"
      using each s by blast
    have 1: "f \<in> set ?grp"
      using set_sortGroup [of place tv ?grp] srt by auto
    have 2: "units s = (case Units f of None \<Rightarrow> '''' | Some u \<Rightarrow> u)"
      by (subst eq) simp
    have 3: "\<forall>r \<in> set ?grp. timeOf tv (CollectedDate f) \<le> timeOf tv (CollectedDate r)"
      if v: "validDates tv ?grp"
      using sortGroup_hd_min [OF v srt] .
    show ?thesis using srt 1 2 3 by blast
  qed
  then show ?thesis using bt d k by blast
qed

theorem units_of_earliest_witness:
  "list_all (\<lambda>r. Indicator r \<notin> set inheritedNames) [upperOnly, nonNumeric]
   \<and> validDates exampleDate (groupOf [upperOnly, nonNumeric] ''Potassium'')
   \<and> sortGroup asGiven exampleDate (groupOf [upperOnly, nonNumeric] ''Potassium'') = [nonNumeric, upperOnly]
   \<and> Units nonNumeric = Some ''mEq/L'' \<and> Units upperOnly = Some ''mmol/L''
   \<and> map_sum id (map units) (buildTrends asGiven exampleDate exampleParseFloat [upperOnly, nonNumeric])
       = Inr [''mEq/L'']"
  using units_of_earliest [where its = "[upperOnly, nonNumeric]" and place = asGiven
      and tv = exampleDate and pf = exampleParseFloat]
  by (simp add: buildTrends_def groupDataByIndicator_def pushItem_def inheritedNames_def Let_def
      appendTo_def objectValues_def arrayIndex_def isDigit_def processGroup_def sortGroup_asGiven
      comparatorConsistent_def validDates_def dateCompare_def toPoint_def groupOf_def fixtures)

subsection \<open>A bound that never appears\<close>

text \<open>
  One record, carrying a lower bound and no upper bound: the series object holds the
  lower bound, next to a \<open>null\<close> upper bound.
\<close>

theorem partial_range_counterexample:
  "buildTrends asGiven exampleDate exampleParseFloat [lowerOnly]
     = Inr [\<lparr>indicator = ''Potassium'', lowerRange = Some (Finite (7/2)), upperRange = None,
              units = '''',
              data = [\<lparr>date = ''2023-01-01'', result = Finite (41/10), laboratory = Some ''Central Lab''\<rparr>]\<rparr>]"
  by (simp add: buildTrends_def groupDataByIndicator_def pushItem_def inheritedNames_def Let_def
      appendTo_def objectValues_def arrayIndex_def isDigit_def processGroup_def sortGroup_asGiven
      comparatorConsistent_def validDates_def dateCompare_def toPoint_def fixtures)

text \<open>
  C6, as the code has it. Whenever grouping does not raise, buildTrends emits one series
  per indicator, whose object holds for each bound the parse of the first non-null field
  in the order the date sort leaves the records, and \<open>null\<close> for a bound that no record
  of the indicator supplies. When either bound is \<open>null\<close>, \<open>renderChart\<close> hands the plot
  the results trace alone: no range line is drawn, not even for the bound that was found.
\<close>

theorem partial_range_not_drawn:
  "(\<forall>r \<in> set its. Indicator r \<notin> set inheritedNames) \<Longrightarrow>
   \<exists>ss. buildTrends place tv pf its = Inr ss
     \<and> distinct (map indicator ss)
     \<and> set (map indicator ss) = Indicator ` set its
     \<and> (\<forall>s \<in> set ss.
           lowerRange s = map_option pf (firstNonNull (map LowerRange
                            (sortGroup place tv (groupOf its (indicator s)))))
         \<and> upperRange s = map_option pf (firstNonNull (map UpperRange
                            (sortGroup place tv (groupOf its (indicator s)))))
         \<and> ((\<forall>r \<in> set (groupOf its (indicator s)). LowerRange r = None) \<longrightarrow> lowerRange s = None)
         \<and> ((\<forall>r \<in> set (groupOf its (indicator s)). UpperRange r = None) \<longrightarrow> upperRange s = None)
         \<and> (lowerRange s = None \<or> upperRange s = None \<longrightarrow>
               renderChart s
                 = Plot [\<lparr>traceName = ''Results'', traceX = map date (data s), traceY = map result (data s)\<rparr>]))"
proof -
  assume nc: "\<forall>r \<in> set its. Indicator r \<notin> set inheritedNames"
  obtain ss where bt: "buildTrends place tv pf its = Inr ss"
    and d: "distinct (map indicator ss)"
    and k: "set (map indicator ss) = Indicator ` set its"
    and each: "\<forall>s \<in> set ss. \<exists>firstItem rest.
                  sortGroup place tv (groupOf its (indicator s)) = firstItem # rest
                  \<and> s = \<lparr>indicator = Indicator firstItem,
                         lowerRange = map_option pf (firstNonNull (map LowerRange (firstItem # rest))),
                         upperRange = map_option pf (firstNonNull (map UpperRange (firstItem # rest))),
                         units = (case Units firstItem of None \<Rightarrow> [] | Some u \<Rightarrow> u),
                         data = map (toPoint pf) (firstItem # rest)\<rparr>"
    using emitted_series [OF nc, of place tv pf] by blast
  have "lowerRange s = map_option pf (firstNonNull (map LowerRange
                          (sortGroup place tv (groupOf its (indicator s)))))
      \<and> upperRange s = map_option pf (firstNonNull (map UpperRange
                          (sortGroup place tv (groupOf its (indicator s)))))
      \<and> ((\<forall>r \<in> set (groupOf its (indicator s)). LowerRange r = None) \<longrightarrow> lowerRange s = None)
      \<and> ((\<forall>r \<in> set (groupOf its (indicator s)). UpperRange r = None) \<longrightarrow> upperRange s = None)
      \<and> (lowerRange s = None \<or> upperRange s = None \<longrightarrow>
            renderChart s
              = Plot [\<lparr>traceName = ''Results'', traceX = map date (data s), traceY = map result (data s)\<rparr>])"
    if s: "s \<in> set ss" for s
  proof -
    let ?grp = "groupOf its (indicator s)"
    let ?srt = "sortGroup place tv ?grp"
    obtain f r where srt: "?srt = f # r"
      and eq: "s = \<lparr>indicator = Indicator f,
                    lowerRange = map_option pf (firstNonNull (map LowerRange (f # r))),
                    upperRange = map_option pf (firstNonNull (map UpperRange (f # r))),
                    units = (case Units f of None \<Rightarrow> [] | Some u \<Rightarrow> u),
                    data = map (toPoint pf) (f # r)\<rparr>"
      using each s by blast
    have 1: "lowerRange s = map_option pf (firstNonNull (map LowerRange ?srt))"
      and 2: "upperRange s = map_option pf (firstNonNull (map UpperRange ?srt))"
      and ne: "data s \<noteq> []"
      unfolding srt by (subst eq, simp)+
    have 3: "lowerRange s = None" if "\<forall>r \<in> set ?grp. LowerRange r = None"
    proof -
      have "\<forall>v \<in> set (map LowerRange ?srt). v = None"
        using that by (auto simp: set_sortGroup)
      then show ?thesis using 1 firstNonNull_None by (metis option.map_disc_iff)
    qed
    have 4: "upperRange s = None" if "\<forall>r \<in> set ?grp. UpperRange r = None"
    proof -
      have "\<forall>v \<in> set (map UpperRange ?srt). v = None"
        using that by (auto simp: set_sortGroup)
      then show ?thesis using 2 firstNonNull_None by (metis option.map_disc_iff)
    qed
    have 5: "renderChart s
              = Plot [\<lparr>traceName = ''Results'', traceX = map date (data s), traceY = map result (data s)\<rparr>]"
      if "lowerRange s = None \<or> upperRange s = None"
      using that ne by (auto simp: renderChart_def Let_def split: option.splits)
    show ?thesis using 1 2 3 4 5 by blast
  qed
  then show ?thesis using bt d k by blast
qed

theorem partial_range_not_drawn_witness:
  "list_all (\<lambda>r. Indicator r \<notin> set inheritedNames) [lowerOnly, sameDay]
   \<and> list_all (\<lambda>r. UpperRange r = None) (groupOf [lowerOnly, sameDay] ''Potassium'')
   \<and> map_sum id (map upperRange) (buildTrends asGiven exampleDate exampleParseFloat [lowerOnly, sameDay])
       = Inr [None]
   \<and> map_sum id (map lowerRange) (buildTrends asGiven exampleDate exampleParseFloat [lowerOnly, sameDay])
       = Inr [Some (Finite (7/2))]
   \<and> map_sum id (map renderChart) (buildTrends asGiven exampleDate exampleParseFloat [lowerOnly, sameDay])
       = Inr [Plot [\<lparr>traceName = ''Results'', traceX = [''2023-01-01'', ''2023-01-01''],
                     traceY = [Finite (41/10), Finite (22/5)]\<rparr>]]"
  using partial_range_not_drawn [where its = "[lowerOnly, sameDay]" and place = asGiven
      and tv = exampleDate and pf = exampleParseFloat]
  by (simp add: buildTrends_def groupDataByIndicator_def pushItem_def inheritedNames_def Let_def
      appendTo_def objectValues_def arrayIndex_def isDigit_def processGroup_def sortGroup_asGiven
      comparatorConsistent_def validDates_def dateCompare_def toPoint_def groupOf_def renderChart_def
      fixtures)

subsection \<open>No records\<close>

text \<open>
  With an empty \<open>items\<close> array the screen's error state is set.
\<close>

theorem empty_records_counterexample:
  "error (fetchAllData asGiven exampleDate exampleParseFloat (Resolved (Some [])) initialHome)
     = Some ''No clinical data found for your account. Redirecting you to upload a new report...''"
  by (simp add: fetchAllData_def noRecords_def initialHome_def)

text \<open>
  C5, as the code has it. When \<open>items\<close> is missing or empty, \<open>fetchAllData\<close> raises
  nothing and leaves the list of charts as it was (empty on a fresh screen), but it
  reports the condition through the screen's error message and schedules the redirect
  to the upload screen. The aggregation itself maps no records to no series.
\<close>

theorem empty_records_message:
  "its = None \<or> its = Some [] \<Longrightarrow>
   fetchAllData place tv pf (Resolved its) st
     = st\<lparr>error := Some ''No clinical data found for your account. Redirecting you to upload a new report...'',
          redirect := Some ''/upload'', loading := False\<rparr>
   \<and> chartsData (fetchAllData place tv pf (Resolved its) st) = chartsData st
   \<and> chartsData (fetchAllData place tv pf (Resolved its) initialHome) = []
   \<and> buildTrends place tv pf [] = Inr []"
  by (auto simp: fetchAllData_def noRecords_def initialHome_def buildTrends_def groupDataByIndicator_def
      objectValues_def)

theorem empty_records_message_witness:
  "(Some [] = (None :: item list option) \<or> Some [] = Some ([] :: item list))
   \<and> chartsData (fetchAllData asGiven exampleDate exampleParseFloat (Resolved (Some [])) initialHome) = []
   \<and> redirect (fetchAllData asGiven exampleDate exampleParseFloat (Resolved (Some [])) initialHome)
       = Some ''/upload''"
  using empty_records_message [of "Some []" asGiven exampleDate exampleParseFloat initialHome]
  by (simp add: initialHome_def)

subsection \<open>Grouping by indicator\<close>

text \<open>
  Grouping raises exactly when some indicator is the name of a property inherited from
  \<open>Object.prototype\<close>. Otherwise it returns, and the groups are exactly the classes of
  records with equal indicator, each in arrival order.
\<close>

lemma grouping_fails_iff:
  "groupDataByIndicator its = Inl TypeError \<longleftrightarrow> (\<exists>r \<in> set its. Indicator r \<in> set inheritedNames)"
proof
  assume "groupDataByIndicator its = Inl TypeError"
  then show "\<exists>r \<in> set its. Indicator r \<in> set inheritedNames"
    using groupDataByIndicator_total [of its] by auto
next
  assume "\<exists>r \<in> set its. Indicator r \<in> set inheritedNames"
  then have "forEachItem its [] = Inl TypeError"
    using forEachItem_fails [of "[]" its] by simp
  then show "groupDataByIndicator its = Inl TypeError"
    by (simp add: groupDataByIndicator_def)
qed

lemma grouping_partitions:
  assumes "\<forall>r \<in> set its. Indicator r \<notin> set inheritedNames"
  shows "\<exists>groups. groupDataByIndicator its = Inr groups
           \<and> mset (concat groups) = mset its
           \<and> mset groups = mset (map (groupOf its) (remdups (map Indicator its)))"
proof -
  have "groupOf its = (\<lambda>k. filter (\<lambda>r. Indicator r = k) its)"
    by (rule ext) (simp add: groupOf_def)
  then show ?thesis
    using groupDataByIndicator_total [OF assms] groupDataByIndicator_Inr(1,3) by metis
qed

text \<open>
  C7. The claim is that every fetched record lands in exactly one series. With one
  record whose indicator is \<open>constructor\<close>, \<open>grouped[indicator]\<close> finds the inherited
  function, no array is created, \<open>push\<close> is not a function, and the whole aggregation
  ends in the \<open>catch\<close> branch: no series at all, also for the other record.
\<close>

theorem grouping_inherited_name:
  "groupDataByIndicator [lowerOnly, upperOnly\<lparr>Indicator := ''constructor''\<rparr>] = Inl TypeError
   \<and> buildTrends place tv pf [lowerOnly, upperOnly\<lparr>Indicator := ''constructor''\<rparr>] = Inl TypeError
   \<and> fetchAllData place tv pf (Resolved (Some [lowerOnly, upperOnly\<lparr>Indicator := ''constructor''\<rparr>])) initialHome
       = initialHome\<lparr>error := Some ''Failed to load trending data.'', loading := False\<rparr>"
  by (simp add: fixtures fetchAllData_def buildTrends_def groupDataByIndicator_def pushItem_def
      inheritedNames_def Let_def)

subsection \<open>One point per record\<close>

text \<open>
  Whenever grouping does not raise, the points of all series together are the points of
  the fetched records, one for one, each carrying the \<open>parseFloat\<close> of the record's
  \<open>Result\<close> whatever that is, \<open>NaN\<close> included; and each bound of a series is the
  \<open>parseFloat\<close> of the first non-null field, so a non-numeric one is kept as \<open>NaN\<close> and
  later entries are not consulted for it.
\<close>

lemma points_of_records:
  assumes nc: "\<forall>r \<in> set its. Indicator r \<notin> set inheritedNames"
  shows "\<exists>ss. buildTrends place tv pf its = Inr ss
           \<and> mset (concat (map data ss)) = image_mset (toPoint pf) (mset its)
           \<and> (\<forall>s \<in> set ss.
                 data s = map (toPoint pf) (sortGroup place tv (groupOf its (indicator s)))
               \<and> lowerRange s = map_option pf (firstNonNull (map LowerRange
                                  (sortGroup place tv (groupOf its (indicator s)))))
               \<and> upperRange s = map_option pf (firstNonNull (map UpperRange
                                  (sortGroup place tv (groupOf its (indicator s))))))"
proof -
  obtain ss where bt: "buildTrends place tv pf its = Inr ss"
    and each: "\<forall>s \<in> set ss. \<exists>firstItem rest.
                  sortGroup place tv (groupOf its (indicator s)) = firstItem # rest
                  \<and> s = \<lparr>indicator = Indicator firstItem,
                         lowerRange = map_option pf (firstNonNull (map LowerRange (firstItem # rest))),
                         upperRange = map_option pf (firstNonNull (map UpperRange (firstItem # rest))),
                         units = (case Units firstItem of None \<Rightarrow> [] | Some u \<Rightarrow> u),
                         data = map (toPoint pf) (firstItem # rest)\<rparr>"
    using emitted_series [OF nc, of place tv pf] by blast
  have 1: "mset (concat (map data ss)) = image_mset (toPoint pf) (mset its)"
    using buildTrends_points [OF nc, of place tv pf] bt by auto
  have 2: "data s = map (toPoint pf) (sortGroup place tv (groupOf its (indicator s)))
        \<and> lowerRange s = map_option pf (firstNonNull (map LowerRange
                            (sortGroup place tv (groupOf its (indicator s)))))
        \<and> upperRange s = map_option pf (firstNonNull (map UpperRange
                            (sortGroup place tv (groupOf its (indicator s)))))"
    if s: "s \<in> set ss" for s
  proof -
    obtain f r where srt: "sortGroup place tv (groupOf its (indicator s)) = f # r"
      and eq: "s = \<lparr>indicator = Indicator f,
                    lowerRange = map_option pf (firstNonNull (map LowerRange (f # r))),
                    upperRange = map_option pf (firstNonNull (map UpperRange (f # r))),
                    units = (case Units f of None \<Rightarrow> [] | Some u \<Rightarrow> u),
                    data = map (toPoint pf) (f # r)\<rparr>"
      using each s by blast
    show ?thesis unfolding srt by (subst eq, simp)+
  qed
  show ?thesis using bt 1 2 by blast
qed

lemma points_with_NaN:
  "buildTrends asGiven exampleDate exampleParseFloat [upperOnly\<lparr>LowerRange := Some ''3.5''\<rparr>, nonNumeric]
     = Inr [\<lparr>indicator = ''Potassium'', lowerRange = Some NaN, upperRange = Some (Finite 5),
              units = ''mEq/L'',
              data = [\<lparr>date = ''2023-03-15'', result = NaN, laboratory = None\<rparr>,
                      \<lparr>date = ''2023-06-01'', result = Finite (22/5), laboratory = None\<rparr>]\<rparr>]"
  by (simp add: buildTrends_def groupDataByIndicator_def pushItem_def inheritedNames_def Let_def
      appendTo_def objectValues_def arrayIndex_def isDigit_def processGroup_def sortGroup_asGiven
      comparatorConsistent_def validDates_def dateCompare_def toPoint_def fixtures)

text \<open>
  C9. The claim is that every fetched record gets exactly one point. With one record
  whose indicator is \<open>toString\<close> among the fetched ones, grouping raises as under C7, and
  no record gets a point: neither that one nor the Potassium record next to it, though
  its result parses.
\<close>

theorem points_lost_with_inherited_name:
  "buildTrends place tv pf [lowerOnly, nonNumeric\<lparr>Indicator := ''toString''\<rparr>] = Inl TypeError
   \<and> chartsData (fetchAllData place tv pf
        (Resolved (Some [lowerOnly, nonNumeric\<lparr>Indicator := ''toString''\<rparr>])) initialHome) = []
   \<and> Indicator lowerOnly = ''Potassium''
   \<and> exampleParseFloat (Result lowerOnly) = Finite (41/10)"
  by (simp add: fixtures fetchAllData_def buildTrends_def groupDataByIndicator_def pushItem_def
      inheritedNames_def Let_def initialHome_def)

section \<open>The review form\<close>

lemma firstEmptyField_None: "firstEmptyField fd = None \<longleftrightarrow> (\<forall>p \<in> set fd. snd p \<noteq> '''')"
  by (induction fd rule: firstEmptyField.induct) auto

lemma firstEmptyField_Some: "firstEmptyField fd = Some field \<Longrightarrow> (field, '''') \<in> set fd"
  by (induction fd rule: firstEmptyField.induct) (auto split: if_splits)

lemma firstEmptyField_found: "(field, '''') \<in> set fd \<Longrightarrow> firstEmptyField fd \<noteq> None"
  by (induction fd rule: firstEmptyField.induct) auto

lemma map_fst_handleChange:
  "map fst (handleChange nm val fd) = (if nm \<in> fst ` set fd then map fst fd else map fst fd @ [nm])"
  by (induction fd) (auto simp: handleChange_def split: if_splits)

lemma distinct_handleChange: "distinct (map fst fd) \<Longrightarrow> distinct (map fst (handleChange nm val fd))"
  by (simp add: map_fst_handleChange)

lemma keys_handleChange: "set (map fst fd) \<subseteq> set (map fst (handleChange nm val fd))"
  by (auto simp: map_fst_handleChange)

lemma foldl_handleChange_keys:
  "distinct (map fst fd) \<Longrightarrow>
   distinct (map fst (foldl (\<lambda>fd (nm, val). handleChange nm val fd) fd events))
   \<and> set (map fst fd) \<subseteq> set (map fst (foldl (\<lambda>fd (nm, val). handleChange nm val fd) fd events))"
proof (induction events arbitrary: fd)
  case Nil
  then show ?case by simp
next
  case (Cons e events)
  obtain nm val where e: "e = (nm, val)" by (cases e)
  have d: "distinct (map fst (handleChange nm val fd))"
    using Cons.prems by (rule distinct_handleChange)
  show ?case
    using Cons.IH [OF d] keys_handleChange [of fd nm val] by (auto simp: e)
qed

lemma afterEdits_keys:
  "distinct (map fst (afterEdits dat events)) \<and> set formFields \<subseteq> fst ` set (afterEdits dat events)"
proof -
  have d: "distinct (map fst (initialFormData dat))"
    by (simp add: initialFormData_def formFields_def comp_def)
  have "map fst (initialFormData dat) = formFields"
    by (simp add: initialFormData_def comp_def)
  then show ?thesis
    using foldl_handleChange_keys [OF d, of events] by (auto simp: afterEdits_def)
qed

text \<open>
  C10. After any sequence of edits of the form, all seven fields are present, and
  \<open>handleSubmit\<close> calls \<open>onSubmit\<close> (with the form data, unchanged) only if every one of
  them holds a non-empty text. If any of the seven is the empty string, units and range
  bounds included, \<open>onSubmit\<close> is not called, the form data stays as it is and the form
  error names a field that is empty.
\<close>

theorem submit_requires_all_fields:
  "(\<forall>field \<in> set formFields. field \<in> fst ` set (afterEdits dat events))
   \<and> (snd (ReviewForm_handleSubmit \<lparr>formData = afterEdits dat events, formError = e\<rparr>) = Some sub
        \<longrightarrow> sub = afterEdits dat events
            \<and> (\<forall>field \<in> set formFields. \<exists>v. map_of sub field = Some v \<and> v \<noteq> ''''))
   \<and> ((\<exists>field \<in> set formFields. map_of (afterEdits dat events) field = Some '''')
        \<longrightarrow> snd (ReviewForm_handleSubmit \<lparr>formData = afterEdits dat events, formError = e\<rparr>) = None
            \<and> formData (fst (ReviewForm_handleSubmit \<lparr>formData = afterEdits dat events, formError = e\<rparr>))
                = afterEdits dat events
            \<and> (\<exists>field. map_of (afterEdits dat events) field = Some ''''
                  \<and> formError (fst (ReviewForm_handleSubmit \<lparr>formData = afterEdits dat events, formError = e\<rparr>))
                      = ''Please fill out the '' @ field @ '' field.''))"
proof -
  let ?fd = "afterEdits dat events"
  have d: "distinct (map fst ?fd)" and k: "set formFields \<subseteq> fst ` set ?fd"
    using afterEdits_keys [of dat events] by simp_all
  have 1: "\<forall>field \<in> set formFields. field \<in> fst ` set ?fd" using k by blast
  have 2: "sub = ?fd \<and> (\<forall>field \<in> set formFields. \<exists>v. map_of sub field = Some v \<and> v \<noteq> '''')"
    if h: "snd (ReviewForm_handleSubmit \<lparr>formData = ?fd, formError = e\<rparr>) = Some sub"
  proof -
    from h have none: "firstEmptyField ?fd = None" and s: "sub = ?fd"
      by (auto simp: ReviewForm_handleSubmit_def split: option.splits)
    have "\<exists>v. map_of ?fd field = Some v \<and> v \<noteq> ''''" if "field \<in> set formFields" for field
    proof -
      from that k obtain v where "(field, v) \<in> set ?fd" by force
      moreover from this none have "v \<noteq> ''''" by (force simp: firstEmptyField_None)
      ultimately show ?thesis using d by simp
    qed
    with s show ?thesis by simp
  qed
  have 3: "snd (ReviewForm_handleSubmit \<lparr>formData = ?fd, formError = e\<rparr>) = None
            \<and> formData (fst (ReviewForm_handleSubmit \<lparr>formData = ?fd, formError = e\<rparr>)) = ?fd
            \<and> (\<exists>field. map_of ?fd field = Some ''''
                  \<and> formError (fst (ReviewForm_handleSubmit \<lparr>formData = ?fd, formError = e\<rparr>))
                      = ''Please fill out the '' @ field @ '' field.'')"
    if h: "\<exists>field \<in> set formFields. map_of ?fd field = Some ''''"
  proof -
    from h obtain f0 where "map_of ?fd f0 = Some ''''" by blast
    then have "(f0, '''') \<in> set ?fd" by (rule map_of_SomeD)
    then have "firstEmptyField ?fd \<noteq> None" by (rule firstEmptyField_found)
    then obtain field where fe: "firstEmptyField ?fd = Some field" by blast
    then have "(field, '''') \<in> set ?fd" by (rule firstEmptyField_Some)
    then have "map_of ?fd field = Some ''''" using d by simp
    then show ?thesis using fe by (auto simp: ReviewForm_handleSubmit_def)
  qed
  show ?thesis using 1 2 3 by blast
qed

theorem submit_requires_all_fields_witness:
  "(\<exists>field \<in> set formFields. map_of (afterEdits exampleData []) field = Some '''')
   \<and> ReviewForm_handleSubmit \<lparr>formData = afterEdits exampleData [], formError = ''''\<rparr>
       = (\<lparr>formData = afterEdits exampleData [], formError = ''Please fill out the Units field.''\<rparr>, None)
   \<and> snd (ReviewForm_handleSubmit \<lparr>formData = afterEdits exampleData [(''Units'', ''mmol/L'')], formError = ''''\<rparr>)
       = Some [(''PatientName'', ''A. Patient''), (''CollectedDate'', ''2023-06-01''), (''Result'', ''4.4''),
               (''Units'', ''mmol/L''), (''LowerRange'', ''3.5''), (''UpperRange'', ''5.0''),
               (''Indicator'', ''Potassium'')]
   \<and> map (map_of (afterEdits exampleData [(''Units'', ''mmol/L'')])) formFields
       = [Some ''A. Patient'', Some ''2023-06-01'', Some ''4.4'', Some ''mmol/L'', Some ''3.5'', Some ''5.0'',
          Some ''Potassium'']"
  using submit_requires_all_fields [of exampleData "[]" "''''"]
    submit_requires_all_fields [of exampleData "[(''Units'', ''mmol/L'')]" "''''"]
  by (simp add: afterEdits_def initialFormData_def formFields_def exampleData_def handleChange_def
      ReviewForm_handleSubmit_def)

section \<open>Edits and pipeline writes\<close>

text \<open>
  What the review screen sends: the record's identifier in the URL and the submitted
  form data as the body, nothing else. Versions are the store's business.
\<close>

lemma review_request_body:
  "ReviewScreen_handleSubmit accepted st updatedData = (st', Some req) \<Longrightarrow>
   putBody req = updatedData \<and> (\<exists>ident. dataId st = Some ident \<and> ident \<noteq> ''''
      \<and> putUrl req = ''http://localhost:5001/clinical-data/'' @ ident)"
  by (auto simp: ReviewScreen_handleSubmit_def Let_def split: option.splits if_splits)

lemma identityOf_version [simp]: "identityOf (r\<lparr>recordVersion := v\<rparr>) = identityOf r"
  by (simp add: identityOf_def)

lemma upsert_keeps_newer:
  "store i = Some e \<Longrightarrow> (identityOf p = i \<longrightarrow> recordVersion p < recordVersion e) \<Longrightarrow>
   upsert store p i = Some e"
  by (auto simp: upsert_def split: option.splits)

lemma pipeline_runs_keep:
  "store i = Some e \<Longrightarrow> pmax i < recordVersion e \<Longrightarrow> list_all (pipelineWrite pmax) ps \<Longrightarrow>
   foldl upsert store ps i = Some e"
proof (induction ps arbitrary: store)
  case Nil
  then show ?case by simp
next
  case (Cons p ps)
  have "identityOf p = i \<longrightarrow> recordVersion p < recordVersion e"
    using Cons.prems by (auto simp: pipelineWrite_def)
  then have "upsert store p i = Some e"
    using Cons.prems(1) by (rule upsert_keeps_newer [rotated])
  then show ?case using Cons by simp
qed

lemma recordEdit_stored:
  "recordEdit pmax store r (identityOf r) = Some (r\<lparr>recordVersion := mintVersion pmax store (identityOf r)\<rparr>)"
  by (auto simp: recordEdit_def upsert_def mintVersion_def split: option.splits)

text \<open>
  The gate is not strict: a write whose version equals the stored one replaces it, which
  is what makes a repeated extraction of the same object idempotent. What protects an
  edit is that its version is strictly above everything the pipeline writes.
\<close>

lemma upsert_equal_version:
  "store (identityOf n) = Some old \<Longrightarrow> recordVersion n = recordVersion old \<Longrightarrow>
   upsert store n (identityOf n) = Some n \<and> upsert (upsert store n) n = upsert store n"
  by (auto simp: upsert_def)

text \<open>
  C2. A record edit stores the edited record under a minted version that is strictly
  above the version of every pipeline write for the same identity; whatever pipeline
  writes follow, for this or any other identity, the store still holds the edit under
  that identity. The upsert replaces a stored record only by one whose version is not
  older.
\<close>

theorem edit_survives_pipeline:
  "recordEdit pmax store r (identityOf r)
      = Some (r\<lparr>recordVersion := mintVersion pmax store (identityOf r)\<rparr>)
   \<and> (pipelineWrite pmax p \<and> identityOf p = identityOf r
        \<longrightarrow> recordVersion p < mintVersion pmax store (identityOf r))
   \<and> (list_all (pipelineWrite pmax) ps
        \<longrightarrow> foldl upsert (recordEdit pmax store r) ps (identityOf r)
              = Some (r\<lparr>recordVersion := mintVersion pmax store (identityOf r)\<rparr>))
   \<and> (store (identityOf n) = Some old \<and> upsert store n (identityOf n) \<noteq> Some old
        \<longrightarrow> upsert store n (identityOf n) = Some n \<and> recordVersion old \<le> recordVersion n)"
proof (intro conjI impI)
  show "recordEdit pmax store r (identityOf r)
      = Some (r\<lparr>recordVersion := mintVersion pmax store (identityOf r)\<rparr>)"
    by (rule recordEdit_stored)
next
  assume "pipelineWrite pmax p \<and> identityOf p = identityOf r"
  then show "recordVersion p < mintVersion pmax store (identityOf r)"
    by (auto simp: pipelineWrite_def mintVersion_def)
next
  assume ps: "list_all (pipelineWrite pmax) ps"
  let ?e = "r\<lparr>recordVersion := mintVersion pmax store (identityOf r)\<rparr>"
  have "pmax (identityOf r) < recordVersion ?e"
    by (simp add: mintVersion_def)
  moreover have "recordEdit pmax store r (identityOf r) = Some ?e"
    by (rule recordEdit_stored)
  ultimately show "foldl upsert (recordEdit pmax store r) ps (identityOf r) = Some ?e"
    using ps pipeline_runs_keep [of "recordEdit pmax store r" "identityOf r" ?e pmax ps] by blast
next
  assume h: "store (identityOf n) = Some old \<and> upsert store n (identityOf n) \<noteq> Some old"
  then show "upsert store n (identityOf n) = Some n" by (auto simp: upsert_def split: if_splits)
  from h show "recordVersion old \<le> recordVersion n" by (auto simp: upsert_def split: if_splits)
qed

theorem edit_survives_pipeline_witness:
  "pipelineWrite (\<lambda>i. 7) exampleRecord \<and> identityOf exampleRecord = identityOf (exampleRecord\<lparr>resultValue := 9/2\<rparr>)
   \<and> list_all (pipelineWrite (\<lambda>i. 7)) [exampleRecord, exampleRecord\<lparr>recordVersion := 7\<rparr>]
   \<and> foldl upsert (recordEdit (\<lambda>i. 7) (upsert Map.empty exampleRecord) (exampleRecord\<lparr>resultValue := 9/2\<rparr>))
         [exampleRecord, exampleRecord\<lparr>recordVersion := 7\<rparr>] (identityOf exampleRecord)
        = Some (exampleRecord\<lparr>resultValue := 9/2, recordVersion := 8\<rparr>)
   \<and> upsert Map.empty exampleRecord (identityOf exampleRecord) = Some exampleRecord
   \<and> upsert (upsert Map.empty exampleRecord) (exampleRecord\<lparr>recordVersion := 7\<rparr>) (identityOf exampleRecord)
        = Some (exampleRecord\<lparr>recordVersion := 7\<rparr>)
   \<and> recordVersion exampleRecord \<le> recordVersion (exampleRecord\<lparr>recordVersion := 7\<rparr>)"
  using edit_survives_pipeline [where pmax = "\<lambda>i. 7" and store = "upsert Map.empty exampleRecord"
      and r = "exampleRecord\<lparr>resultValue := 9/2\<rparr>" and p = exampleRecord
      and ps = "[exampleRecord, exampleRecord\<lparr>recordVersion := 7\<rparr>]"
      and n = "exampleRecord\<lparr>recordVersion := 7\<rparr>" and old = exampleRecord]
  by (simp add: pipelineWrite_def identityOf_def exampleRecord_def upsert_def mintVersion_def recordEdit_def)

section \<open>Upload requests\<close>

text \<open>
  C8. \<open>requestUpload\<close> with an empty list of indicators or a content type that is not
  accepted answers \<open>InvalidRequest\<close>, leaves the pending uploads as they were and returns
  no credential; it answers so in no other case, and a credential is only ever returned
  together with the new pending upload. The upload screen, for its part, sends no
  request with an empty list: the button is disabled then.
\<close>

theorem invalid_request_rejected:
  "(indicatorNames = [] \<or> \<not> acceptedType cfg contentType
      \<longrightarrow> requestUpload cfg now pendings user patientIdent filename contentType indicatorNames
            = (pendings, Inl InvalidRequest))
   \<and> (snd (requestUpload cfg now pendings user patientIdent filename contentType indicatorNames) = Inl InvalidRequest
      \<longrightarrow> indicatorNames = [] \<or> \<not> acceptedType cfg contentType)
   \<and> (snd (requestUpload cfg now pendings user patientIdent filename contentType indicatorNames) = Inr (key, cred)
      \<longrightarrow> indicatorNames \<noteq> [] \<and> acceptedType cfg contentType
          \<and> fst (requestUpload cfg now pendings user patientIdent filename contentType indicatorNames)
              = \<lparr>objectKey = key, owner = user, patient = patientIdent, expectedIndicators = indicatorNames,
                 createdAt = now, uploadState = ISSUED\<rparr> # pendings)
   \<and> (clickUpload st = Some req \<longrightarrow> reqIndicators req \<noteq> [])"
  by (auto simp: requestUpload_def Let_def clickUpload_def uploadDisabled_def split: if_splits option.splits)

theorem invalid_request_rejected_witness:
  "([] = ([] :: string list) \<or> \<not> acceptedType exampleConfig ''image/jpeg'')
   \<and> requestUpload exampleConfig 100 [] ''u1'' ''p1'' ''report.jpg'' ''image/jpeg'' [] = ([], Inl InvalidRequest)
   \<and> ([''Potassium''] = [] \<or> \<not> acceptedType exampleConfig ''application/pdf'')
   \<and> requestUpload exampleConfig 100 [] ''u1'' ''p1'' ''report.pdf'' ''application/pdf'' [''Potassium'']
        = ([], Inl InvalidRequest)
   \<and> requestUpload exampleConfig 100 [] ''u1'' ''p1'' ''report.jpg'' ''image/jpeg'' [''Potassium'']
        = ([\<lparr>objectKey = ''u1/report.jpg'', owner = ''u1'', patient = ''p1'', expectedIndicators = [''Potassium''],
              createdAt = 100, uploadState = ISSUED\<rparr>],
           Inr (''u1/report.jpg'', \<lparr>credentialKey = ''u1/report.jpg'', expiresAt = 1000\<rparr>))
   \<and> clickUpload \<lparr>chosenFile = Some \<lparr>fileName = ''report.jpg'', fileType = ''image/jpeg''\<rparr>,
                   indicators = [''Potassium''], processing = False\<rparr>
        = Some \<lparr>reqFilename = ''report.jpg'', reqContentType = ''image/jpeg'', reqIndicators = [''Potassium'']\<rparr>"
  using invalid_request_rejected [where cfg = exampleConfig and indicatorNames = "[]" and contentType = "''image/jpeg''"
      and now = 100 and pendings = "[]" and user = "''u1''" and patientIdent = "''p1''" and filename = "''report.jpg''"]
    invalid_request_rejected [where cfg = exampleConfig and indicatorNames = "[''Potassium'']"
      and contentType = "''application/pdf''"
      and now = 100 and pendings = "[]" and user = "''u1''" and patientIdent = "''p1''" and filename = "''report.pdf''"]
  by (simp add: exampleConfig_def requestUpload_def clickUpload_def uploadDisabled_def exampleParseFloat_def Let_def)

end
